theory Spec2Isabelle
  imports Main "HOL-Library.AList"
begin

section \<open>The statistics service, the clock and the plotting state\<close>

text \<open>
  The development embeds \<^verbatim>\<open>cogs/graph.py\<close>. Everything the module reads from
  outside is a field of an environment record, so that the functions below are
  deterministic and can be run on a scripted service:
  \<^item> the clock: \<open>utcnow env k\<close> is the value of the \<open>k\<close>-th call of
    \<^verbatim>\<open>datetime.utcnow()\<close>; an instant is an integer time stamp;
  \<^item> \<open>minus_days env t d\<close> is \<^verbatim>\<open>t - timedelta(days=d)\<close>, which raises
    \<^verbatim>\<open>OverflowError\<close> outside the range of the library's dates;
  \<^item> \<open>isoformat env\<close> and \<open>strftime_b_d env\<close> (\<^verbatim>\<open>strftime('%b %d')\<close>) print an
    instant;
  \<^item> \<open>http_get env log rq\<close> is the response of the service to the request \<open>rq\<close> after
    the exchanges \<open>log\<close>. Only exchanges that produce a well-formed response are
    modelled: a transport fault or a body that is not an array of
    \<^verbatim>\<open>{discord_id, user, messages}\<close> objects is outside the model.
\<close>

type_synonym uid = string
type_synonym datetime = int

datatype error = OverflowError | KeyError | FileNotFoundError | BadArgument string

record row =
  discord_id :: uid
  user :: string
  messages :: int

datatype pval = PStr string | PInt int | PUid uid

record request =
  url :: string
  params :: "(string \<times> pval) list"

record response =
  status :: int
  json :: "row list"

type_synonym exchange = "request \<times> response"

record env =
  utcnow :: "nat \<Rightarrow> datetime"
  minus_days :: "datetime \<Rightarrow> int \<Rightarrow> error + datetime"
  isoformat :: "datetime \<Rightarrow> string"
  strftime_b_d :: "datetime \<Rightarrow> string"
  http_get :: "exchange list \<Rightarrow> request \<Rightarrow> response"

text \<open>
  A plotted line has its x values (day numbers in the per-user graph, date labels in the
  server graph), its y values and, in the per-user graph, a legend label. A figure is
  what the module sets on the axes before saving them.
\<close>

datatype xval = XNum int | XStr string

datatype plot_line = Line "xval list" "int list" "string option"

record figure =
  lines :: "plot_line list"
  legend :: bool
  ylabel :: string
  xlabel :: string
  ymin :: "int option"
  grid :: bool
  xtick_rotation :: int

definition empty_figure :: figure where
  "empty_figure = \<lparr>lines = [], legend = False, ylabel = [], xlabel = [],
     ymin = None, grid = False, xtick_rotation = 0\<rparr>"

datatype reply = Text string | Attachment figure

text \<open>
  The state the module changes: the number of clock readings made, the HTTP exchanges
  made (oldest first), pyplot's current axes, the contents of \<^verbatim>\<open>last_graph.png\<close>
  and the messages sent to the channel (oldest first).
\<close>

record world =
  ticks :: nat
  exchanges :: "exchange list"
  axes :: figure
  png :: "figure option"
  outbox :: "reply list"

record member =
  member_id :: int

type_synonym names = "(uid \<times> string) list"
type_synonym totals = "(uid \<times> int) list"
type_synonym series = "(int \<times> int) list"
type_synonym graph_data = "(uid \<times> series) list"

section \<open>Helpers\<close>

text \<open>\<^verbatim>\<open>clamp\<close>, lines 20 to 25.\<close>

definition clamp :: "int \<Rightarrow> int \<Rightarrow> int \<Rightarrow> int" where
  "clamp v low high = (if v < low then low else if v > high then high else v)"

definition stats_url :: string where
  "stats_url = ''https://emkc.org/api/v1/stats/discord/messages''"

text \<open>\<^verbatim>\<open>datetime.utcnow() - timedelta(days=d)\<close>: the clock is read, then the subtraction
  may raise.\<close>

definition utcnow_minus :: "env \<Rightarrow> int \<Rightarrow> world \<Rightarrow> (error + datetime) \<times> world" where
  "utcnow_minus env d w =
     (minus_days env (utcnow env (ticks w)) d, w\<lparr>ticks := Suc (ticks w)\<rparr>)"

text \<open>\<^verbatim>\<open>self.client.session.get(url, params=params)\<close>: the exchange is appended to the log.\<close>

definition session_get :: "env \<Rightarrow> request \<Rightarrow> world \<Rightarrow> response \<times> world" where
  "session_get env rq w =
     (let rs = http_get env (exchanges w) rq
      in (rs, w\<lparr>exchanges := exchanges w @ [(rq, rs)]\<rparr>))"

text \<open>
  A dict comprehension \<^verbatim>\<open>{key(x): val(x) for x in xs}\<close>. A Python dict keeps its keys
  in the order of their first insertion and a later value replaces an earlier one in
  place, which is what \<open>AList.update\<close> does on an association list.
\<close>

definition dict_of :: "('a \<Rightarrow> 'k) \<Rightarrow> ('a \<Rightarrow> 'v) \<Rightarrow> 'a list \<Rightarrow> ('k \<times> 'v) list" where
  "dict_of key val xs = foldl (\<lambda>d x. AList.update (key x) (val x) d) [] xs"

text \<open>\<^verbatim>\<open>range(n)\<close> for a Python integer \<open>n\<close>: empty when \<open>n \<le> 0\<close>.\<close>

definition py_range :: "int \<Rightarrow> int list" where
  "py_range n = [0..n - 1]"

text \<open>\<^verbatim>\<open>str(n)\<close> of an integer, as \<^verbatim>\<open>format\<close> prints it.\<close>

fun show_nat :: "nat \<Rightarrow> string" where
  "show_nat n =
     (if n < 10 then [''0123456789'' ! n]
      else show_nat (n div 10) @ [''0123456789'' ! (n mod 10)])"

declare show_nat.simps [simp del]

definition show_int :: "int \<Rightarrow> string" where
  "show_int i = (if i < 0 then CHR ''-'' # show_nat (nat (- i)) else show_nat (nat i))"

section \<open>\<^verbatim>\<open>create_graph_messages\<close>\<close>

text \<open>Lines 40 to 53: the parameters of the request for the whole window.\<close>

definition window_params ::
    "env \<Rightarrow> int \<Rightarrow> int \<Rightarrow> member list option \<Rightarrow> world \<Rightarrow>
     (error + (string \<times> pval) list) \<times> world" where
  "window_params env days limit members w =
     (case utcnow_minus env days w of
        (Inl e, w1) \<Rightarrow> (Inl e, w1)
      | (Inr start, w1) \<Rightarrow>
          (Inr ([(''start'', PStr (isoformat env start))]
                @ (if limit > 0 then [(''limit'', PInt limit)] else [])
                @ (case members of
                     None \<Rightarrow> []
                   | Some ms \<Rightarrow> map (\<lambda>m. (''discord_id'', PInt (member_id m))) ms)),
           w1))"

text \<open>
  Lines 85 to 100: one day's response merged into the series. \<open>retrieved\<close> is
  \<^verbatim>\<open>retrieved_users\<close>; the loop runs over the items of \<^verbatim>\<open>graph_data\<close> in order,
  appends one point to each series and overwrites the names of the users it finds in
  the response.
\<close>

definition retrieved_users :: "row list \<Rightarrow> (uid \<times> row) list" where
  "retrieved_users api_data = dict_of discord_id (\<lambda>x. x) api_data"

fun merge_day :: "int \<Rightarrow> (uid \<times> row) list \<Rightarrow> names \<Rightarrow> graph_data \<Rightarrow> names \<times> graph_data" where
  "merge_day i retrieved user_names [] = (user_names, [])"
| "merge_day i retrieved user_names ((uid, data) # rest) =
     (let current_msg = (if data \<noteq> [] then snd (last data) else 0)
      in case map_of retrieved uid of
           None \<Rightarrow>
             (let (names', rest') = merge_day i retrieved user_names rest
              in (names', (uid, data @ [(i + 1, current_msg)]) # rest'))
         | Some api_data \<Rightarrow>
             (let (names', rest') =
                    merge_day i retrieved (AList.update uid (user api_data) user_names) rest
              in (names', (uid, data @ [(i + 1, current_msg + messages api_data)]) # rest')))"

text \<open>
  Lines 72 to 100: the body of the loop for day \<open>i\<close>. The result \<open>Inr None\<close> is
  \<^verbatim>\<open>return False\<close>.
\<close>

definition day_step ::
    "env \<Rightarrow> int \<Rightarrow> int \<Rightarrow> names \<times> graph_data \<Rightarrow> world \<Rightarrow>
     (error + (names \<times> graph_data) option) \<times> world" where
  "day_step env days i st w =
     (case utcnow_minus env (days - i) w of
        (Inl e, w1) \<Rightarrow> (Inl e, w1)
      | (Inr startdate, w1) \<Rightarrow>
     (case utcnow_minus env (days - i - 1) w1 of
        (Inl e, w2) \<Rightarrow> (Inl e, w2)
      | (Inr enddate, w2) \<Rightarrow>
     (case session_get env
             \<lparr>url = stats_url,
              params = [(''start'', PStr (isoformat env startdate)),
                        (''end'', PStr (isoformat env enddate))]
                       @ map (\<lambda>(uid, _). (''discord_id'', PUid uid)) (fst st)\<rparr> w2 of
        (resp, w3) \<Rightarrow>
          if status resp \<noteq> 200 then (Inr None, w3)
          else (Inr (Some (merge_day i (retrieved_users (json resp)) (fst st) (snd st))),
                w3))))"

text \<open>Line 71: the loop over the day indices.\<close>

fun day_loop ::
    "env \<Rightarrow> int \<Rightarrow> int list \<Rightarrow> names \<times> graph_data \<Rightarrow> world \<Rightarrow>
     (error + (names \<times> graph_data) option) \<times> world" where
  "day_loop env days [] st w = (Inr (Some st), w)"
| "day_loop env days (i # rest) st w =
     (case day_step env days i st w of
        (Inr (Some st'), w') \<Rightarrow> day_loop env days rest st' w'
      | (Inr None, w') \<Rightarrow> (Inr None, w')
      | (Inl e, w') \<Rightarrow> (Inl e, w'))"

text \<open>Line 103: \<^verbatim>\<open>all([not x for x in graph_data.values()])\<close>.\<close>

definition all_series_empty :: "graph_data \<Rightarrow> bool" where
  "all_series_empty gd = list_all (\<lambda>x. snd x = []) gd"

text \<open>Line 69: every user of the window response starts with the point \<open>(0, 0)\<close>.\<close>

definition seed :: "names \<Rightarrow> graph_data" where
  "seed user_names = map (\<lambda>(uid, _). (uid, [(0, 0)])) user_names"

text \<open>
  Lines 38 to 104: the requests and the aggregation, up to the last \<^verbatim>\<open>return False\<close>.
  The result \<open>Inr None\<close> is \<^verbatim>\<open>return False\<close>; \<open>Inr (Some (user_names, num_messages,
  graph_data))\<close> are the three dicts with which the function goes on to plot.
\<close>

definition collect_series ::
    "env \<Rightarrow> int \<Rightarrow> int \<Rightarrow> member list option \<Rightarrow> world \<Rightarrow>
     (error + (names \<times> totals \<times> graph_data) option) \<times> world" where
  "collect_series env days limit members w =
     (case window_params env days limit members w of
        (Inl e, w1) \<Rightarrow> (Inl e, w1)
      | (Inr ps, w1) \<Rightarrow>
     (case session_get env \<lparr>url = stats_url, params = ps\<rparr> w1 of
        (resp, w2) \<Rightarrow>
          if status resp \<noteq> 200 then (Inr None, w2)
          else if json resp = [] then (Inr None, w2)
          else
            (let user_names = dict_of discord_id user (json resp);
                 num_messages = dict_of discord_id messages (json resp)
             in case day_loop env days (py_range days) (user_names, seed user_names) w2 of
                  (Inl e, w3) \<Rightarrow> (Inl e, w3)
                | (Inr None, w3) \<Rightarrow> (Inr None, w3)
                | (Inr (Some (user_names', gd)), w3) \<Rightarrow>
                    if all_series_empty gd then (Inr None, w3)
                    else (Inr (Some (user_names', num_messages, gd)), w3))))"

text \<open>
  Lines 107 to 112: one line per user, labelled with the name without its last five
  characters and the user's total of the window. A key that is missing raises.
\<close>

fun plot_series :: "names \<Rightarrow> totals \<Rightarrow> graph_data \<Rightarrow> world \<Rightarrow> (error + unit) \<times> world" where
  "plot_series user_names num_messages [] w = (Inr (), w)"
| "plot_series user_names num_messages ((uid, data) # rest) w =
     (case map_of user_names uid of
        None \<Rightarrow> (Inl KeyError, w)
      | Some name \<Rightarrow>
     (case map_of num_messages uid of
        None \<Rightarrow> (Inl KeyError, w)
      | Some count \<Rightarrow>
          plot_series user_names num_messages rest
            (w\<lparr>axes := (axes w)\<lparr>lines := lines (axes w) @
               [Line (map (\<lambda>p. XNum (fst p)) data) (map snd data)
                  (Some (take (length name - 5) name @ '' '' @ show_int count))]\<rparr>\<rparr>)))"

text \<open>\<^verbatim>\<open>label_time.split(".")[0].replace("T", " ")\<close>, line 119.\<close>

definition since_label :: "string \<Rightarrow> string" where
  "since_label s =
     map (\<lambda>c. if c = CHR ''T'' then CHR '' '' else c) (takeWhile (\<lambda>c. c \<noteq> CHR ''.'') s)"

text \<open>
  The whole function, lines 37 to 125. \<open>Inr True\<close> and \<open>Inr False\<close> are the values
  returned; after \<^verbatim>\<open>savefig\<close> the file holds the figure, and \<^verbatim>\<open>cla\<close> clears the
  axes.
\<close>

definition create_graph_messages ::
    "env \<Rightarrow> int \<Rightarrow> int \<Rightarrow> member list option \<Rightarrow> world \<Rightarrow> (error + bool) \<times> world" where
  "create_graph_messages env days limit members w =
     (case collect_series env days limit members w of
        (Inl e, w1) \<Rightarrow> (Inl e, w1)
      | (Inr None, w1) \<Rightarrow> (Inr False, w1)
      | (Inr (Some (user_names, num_messages, gd)), w1) \<Rightarrow>
     (case plot_series user_names num_messages gd w1 of
        (Inl e, w2) \<Rightarrow> (Inl e, w2)
      | (Inr _, w2) \<Rightarrow>
     (let w3 = w2\<lparr>axes := (axes w2)\<lparr>legend := True, ylabel := ''Messages''\<rparr>\<rparr>
      in case utcnow_minus env days w3 of
           (Inl e, w4) \<Rightarrow> (Inl e, w4)
         | (Inr label_time, w4) \<Rightarrow>
             (let fig = (axes w4)\<lparr>xlabel := ''Time in days since ''
                          @ since_label (isoformat env label_time) @ '' UTC''\<rparr>
              in (Inr True, w4\<lparr>axes := empty_figure, png := Some fig\<rparr>)))))"

section \<open>The commands\<close>

text \<open>
  Lines 155 to 159 and 178 to 182, shared by \<^verbatim>\<open>top\<close> and \<^verbatim>\<open>users\<close>: the file is
  read back and sent, or the text is sent.
\<close>

definition send_graph :: "(error + bool) \<times> world \<Rightarrow> (error + unit) \<times> world" where
  "send_graph r =
     (case r of
        (Inl e, w) \<Rightarrow> (Inl e, w)
      | (Inr True, w) \<Rightarrow>
          (case png w of
             None \<Rightarrow> (Inl FileNotFoundError, w)
           | Some g \<Rightarrow> (Inr (), w\<lparr>outbox := outbox w @ [Attachment g]\<rparr>))
      | (Inr False, w) \<Rightarrow> (Inr (), w\<lparr>outbox := outbox w @ [Text ''Nothing found'']\<rparr>))"

text \<open>\<^verbatim>\<open>top\<close>, lines 142 to 159.\<close>

definition top_command :: "env \<Rightarrow> int \<Rightarrow> int \<Rightarrow> world \<Rightarrow> (error + unit) \<times> world" where
  "top_command env n days w =
     (let days' = clamp days 1 30;
          n' = clamp n 1 10
      in send_graph (create_graph_messages env days' n' None w))"

text \<open>\<^verbatim>\<open>users\<close>, lines 164 to 182.\<close>

definition users :: "env \<Rightarrow> member list \<Rightarrow> int \<Rightarrow> world \<Rightarrow> (error + unit) \<times> world" where
  "users env members days w =
     (if members = [] then (Inl (BadArgument ''Please specify at least 1 member''), w)
      else
        (let days' = clamp days 1 30
         in send_graph (create_graph_messages env days' 0 (Some (take 10 members)) w)))"

text \<open>
  \<^verbatim>\<open>server\<close>, lines 199 to 216: the body of the loop for window \<open>k\<close>. \<open>Inr None\<close> is
  \<^verbatim>\<open>return False\<close>, \<open>Inr (Some p)\<close> the pair appended to \<^verbatim>\<open>num_messages\<close>.
\<close>

definition sample ::
    "env \<Rightarrow> int \<Rightarrow> int \<Rightarrow> world \<Rightarrow> (error + (string \<times> int) option) \<times> world" where
  "sample env sample_distance k w =
     (case utcnow_minus env ((k + 1) * sample_distance) w of
        (Inl e, w1) \<Rightarrow> (Inl e, w1)
      | (Inr start, w1) \<Rightarrow>
     (case utcnow_minus env (k * sample_distance) w1 of
        (Inl e, w2) \<Rightarrow> (Inl e, w2)
      | (Inr enddate, w2) \<Rightarrow>
     (case session_get env
             \<lparr>url = stats_url,
              params = [(''start'', PStr (isoformat env start)),
                        (''end'', PStr (isoformat env enddate))]\<rparr> w2 of
        (resp, w3) \<Rightarrow>
          if status resp \<noteq> 200 then (Inr None, w3)
          else if json resp = [] then (Inr None, w3)
          else (Inr (Some (strftime_b_d env enddate, sum_list (map messages (json resp)))),
                w3))))"

text \<open>Line 198: the loop over the windows, with \<^verbatim>\<open>num_messages\<close> as accumulator.\<close>

fun sample_loop ::
    "env \<Rightarrow> int \<Rightarrow> int list \<Rightarrow> (string \<times> int) list \<Rightarrow> world \<Rightarrow>
     (error + (string \<times> int) list option) \<times> world" where
  "sample_loop env sample_distance [] num_messages w = (Inr (Some num_messages), w)"
| "sample_loop env sample_distance (k # rest) num_messages w =
     (case sample env sample_distance k w of
        (Inr (Some p), w') \<Rightarrow> sample_loop env sample_distance rest (num_messages @ [p]) w'
      | (Inr None, w') \<Rightarrow> (Inr None, w')
      | (Inl e, w') \<Rightarrow> (Inl e, w'))"

text \<open>
  Lines 217 to 229: the figure of the server graph, drawn on axes of its own from the
  reversed list.
\<close>

definition server_figure :: "(string \<times> int) list \<Rightarrow> figure" where
  "server_figure num_messages =
     (let reversed = rev num_messages
      in empty_figure\<lparr>lines := [Line (map (\<lambda>p. XStr (fst p)) reversed) (map snd reversed) None],
           ylabel := ''Messages'', xlabel := ''Date'', ymin := Some 0, grid := True,
           xtick_rotation := 90\<rparr>)"

text \<open>
  \<^verbatim>\<open>server\<close>, lines 187 to 233. The function returns \<^verbatim>\<open>False\<close> (\<open>Some False\<close>) from
  inside the loop, and \<^verbatim>\<open>None\<close> (\<open>None\<close>) at its end. The figure made by
  \<^verbatim>\<open>plt.subplots()\<close> becomes pyplot's current one and is cleared after it is saved.
\<close>

definition server :: "env \<Rightarrow> int \<Rightarrow> int \<Rightarrow> world \<Rightarrow> (error + bool option) \<times> world" where
  "server env num_samples sample_distance w =
     (case sample_loop env sample_distance (py_range num_samples) [] w of
        (Inl e, w1) \<Rightarrow> (Inl e, w1)
      | (Inr None, w1) \<Rightarrow> (Inr (Some False), w1)
      | (Inr (Some num_messages), w1) \<Rightarrow>
          (let fig = server_figure num_messages;
               w2 = w1\<lparr>axes := empty_figure, png := Some fig\<rparr>
           in case png w2 of
                None \<Rightarrow> (Inl FileNotFoundError, w2)
              | Some g \<Rightarrow> (Inr None, w2\<lparr>outbox := outbox w2 @ [Attachment g]\<rparr>)))"

section \<open>The log of a loop\<close>

text \<open>
  What a run of the daily loop adds to the log of exchanges, by the way the run
  ends (\<open>n\<close> is the number of iterations asked for): every response but the last has
  status 200; a run that returns \<^verbatim>\<open>False\<close> on a status ends with a response of another
  status, a run that reaches its end has made \<open>n\<close> exchanges.
\<close>

definition loop_log :: "(error + 'a option) \<Rightarrow> nat \<Rightarrow> exchange list \<Rightarrow> bool" where
  "loop_log r n ys =
     (length ys \<le> n \<and> (\<forall>y \<in> set (butlast ys). status (snd y) = 200) \<and>
      (case r of
         Inl e \<Rightarrow> \<forall>y \<in> set ys. status (snd y) = 200
       | Inr None \<Rightarrow> ys \<noteq> [] \<and> status (snd (last ys)) \<noteq> 200
       | Inr (Some st) \<Rightarrow> length ys = n \<and> (\<forall>y \<in> set ys. status (snd y) = 200)))"

text \<open>
  The exchange of one day of the per-user graph: \<open>y\<close> is the exchange for day \<open>i\<close> of a
  window of \<open>days\<close> days, when the clock is read for the \<open>t\<close>-th time at the start of the
  iteration. The request is for the day from \<open>days - i\<close> to \<open>days - i - 1\<close> days ago (its
  other parameters are the ids of the users).
\<close>

definition day_exchange :: "env \<Rightarrow> int \<Rightarrow> nat \<Rightarrow> int \<Rightarrow> exchange \<Rightarrow> bool" where
  "day_exchange env days t i y =
     (case (minus_days env (utcnow env t) (days - i),
            minus_days env (utcnow env (Suc t)) (days - i - 1)) of
        (Inr startdate, Inr enddate) \<Rightarrow>
          url (fst y) = stats_url
          \<and> take 2 (params (fst y)) = [(''start'', PStr (isoformat env startdate)),
                                        (''end'', PStr (isoformat env enddate))]
      | _ \<Rightarrow> False)"

text \<open>
  The exchange and the point of one window of the server graph: \<open>y\<close> is the exchange for
  window \<open>k\<close> and \<open>p\<close> its point, when the clock is read for the \<open>t\<close>-th time at the start
  of the iteration. The request is for the window from \<open>(k + 1) * sample_distance\<close> days
  ago to \<open>k * sample_distance\<close> days ago, the label is the day of the window's end and
  the total the sum of the \<^verbatim>\<open>messages\<close> of the response.
\<close>

definition window_exchange ::
    "env \<Rightarrow> int \<Rightarrow> nat \<Rightarrow> int \<Rightarrow> exchange \<Rightarrow> string \<times> int \<Rightarrow> bool" where
  "window_exchange env sample_distance t k y p =
     (case (minus_days env (utcnow env t) ((k + 1) * sample_distance),
            minus_days env (utcnow env (Suc t)) (k * sample_distance)) of
        (Inr start, Inr enddate) \<Rightarrow>
          fst y = \<lparr>url = stats_url,
                   params = [(''start'', PStr (isoformat env start)),
                             (''end'', PStr (isoformat env enddate))]\<rparr>
          \<and> p = (strftime_b_d env enddate, sum_list (map messages (json (snd y))))
      | _ \<Rightarrow> False)"

section \<open>A scripted service\<close>

text \<open>
  To run the functions: a service that answers the \<open>k\<close>-th request of the log with the
  \<open>k\<close>-th response of a script (and with status 404 once the script is used up), a
  clock that stands still, instants counted in days and printed as decimal numbers.
\<close>

definition scripted :: "response list \<Rightarrow> exchange list \<Rightarrow> request \<Rightarrow> response" where
  "scripted rs log rq =
     (if length log < length rs then rs ! length log else \<lparr>status = 404, json = []\<rparr>)"

definition test_env :: "response list \<Rightarrow> env" where
  "test_env rs =
     \<lparr>utcnow = (\<lambda>k. 20000), minus_days = (\<lambda>t d. Inr (t - d)), isoformat = show_int,
      strftime_b_d = show_int, http_get = scripted rs\<rparr>"

definition new_world :: world where
  "new_world = \<lparr>ticks = 0, exchanges = [], axes = empty_figure, png = None, outbox = []\<rparr>"

definition ok :: "row list \<Rightarrow> response" where
  "ok rows = \<lparr>status = 200, json = rows\<rparr>"

definition stat :: "uid \<Rightarrow> string \<Rightarrow> int \<Rightarrow> row" where
  "stat i u m = \<lparr>discord_id = i, user = u, messages = m\<rparr>"

text \<open>
  A run over two days: the window has two users; the first day has messages of the first
  one only, the second day of both, the second user under a new name.
\<close>

definition demo_rows :: "row list" where
  "demo_rows = [stat ''1'' ''alice#0001'' 5, stat ''2'' ''bob#0002'' 3]"

definition demo_script :: "response list" where
  "demo_script = [ok demo_rows, ok [stat ''1'' ''alice#0001'' 2],
                  ok [stat ''2'' ''robert#0002'' 3, stat ''1'' ''alice#0001'' 3]]"

definition demo_log :: "exchange list" where
  "demo_log =
     [(\<lparr>url = stats_url, params = [(''start'', PStr (show_int 19998))]\<rparr>, ok demo_rows),
      (\<lparr>url = stats_url,
        params = [(''start'', PStr (show_int 19998)), (''end'', PStr (show_int 19999)),
                  (''discord_id'', PUid ''1''), (''discord_id'', PUid ''2'')]\<rparr>,
       ok [stat ''1'' ''alice#0001'' 2]),
      (\<lparr>url = stats_url,
        params = [(''start'', PStr (show_int 19999)), (''end'', PStr (show_int 20000)),
                  (''discord_id'', PUid ''1''), (''discord_id'', PUid ''2'')]\<rparr>,
       ok [stat ''2'' ''robert#0002'' 3, stat ''1'' ''alice#0001'' 3])]"

definition demo_series :: graph_data where
  "demo_series = [(''1'', [(0, 0), (1, 2), (2, 5)]), (''2'', [(0, 0), (1, 0), (2, 3)])]"

text \<open>A run over five days in which the service fails on the second day.\<close>

definition failing_script :: "response list" where
  "failing_script = [ok demo_rows, ok [stat ''1'' ''alice#0001'' 2],
                     \<lparr>status = 503, json = []\<rparr>, ok demo_rows, ok demo_rows, ok demo_rows]"

definition failing_log :: "exchange list" where
  "failing_log =
     [(\<lparr>url = stats_url, params = [(''start'', PStr (show_int 19995))]\<rparr>, ok demo_rows),
      (\<lparr>url = stats_url,
        params = [(''start'', PStr (show_int 19995)), (''end'', PStr (show_int 19996)),
                  (''discord_id'', PUid ''1''), (''discord_id'', PUid ''2'')]\<rparr>,
       ok [stat ''1'' ''alice#0001'' 2]),
      (\<lparr>url = stats_url,
        params = [(''start'', PStr (show_int 19996)), (''end'', PStr (show_int 19997)),
                  (''discord_id'', PUid ''1''), (''discord_id'', PUid ''2'')]\<rparr>,
       \<lparr>status = 503, json = []\<rparr>)]"

text \<open>
  Three windows of seven days for the server graph: the service returns messages that sum
  to 10 for the first window asked for (the most recent), to 20 for the second and to 30
  for the third.
\<close>

definition sums_script :: "response list" where
  "sums_script = [ok [stat ''1'' ''alice#0001'' 10],
                  ok [stat ''1'' ''alice#0001'' 15, stat ''2'' ''bob#0002'' 5],
                  ok [stat ''2'' ''bob#0002'' 12, stat ''1'' ''alice#0001'' 18]]"

definition sums_log :: "exchange list" where
  "sums_log =
     [(\<lparr>url = stats_url,
        params = [(''start'', PStr (show_int 19993)), (''end'', PStr (show_int 20000))]\<rparr>,
       ok [stat ''1'' ''alice#0001'' 10]),
      (\<lparr>url = stats_url,
        params = [(''start'', PStr (show_int 19986)), (''end'', PStr (show_int 19993))]\<rparr>,
       ok [stat ''1'' ''alice#0001'' 15, stat ''2'' ''bob#0002'' 5]),
      (\<lparr>url = stats_url,
        params = [(''start'', PStr (show_int 19979)), (''end'', PStr (show_int 19986))]\<rparr>,
       ok [stat ''2'' ''bob#0002'' 12, stat ''1'' ''alice#0001'' 18])]"

definition sums_figure :: figure where
  "sums_figure =
     \<lparr>lines = [Line [XStr (show_int 19986), XStr (show_int 19993), XStr (show_int 20000)]
                    [30, 20, 10] None],
      legend = False, ylabel = ''Messages'', xlabel = ''Date'', ymin = Some 0, grid = True,
      xtick_rotation = 90\<rparr>"

section \<open>Basic facts\<close>

lemma length_py_range: "length (py_range n) = nat n"
  by (simp add: py_range_def)

lemma py_range_nonpos: "n \<le> 0 \<Longrightarrow> py_range n = []"
  by (simp add: py_range_def)

lemma py_range_nth: "j < nat n \<Longrightarrow> py_range n ! j = int j"
  by (simp add: py_range_def)

section \<open>The requests and the merges of the daily loop\<close>

lemma day_step_cases:
  assumes "day_step env days i st w = (r, w')"
  shows "(\<exists>e. r = Inl e \<and> exchanges w' = exchanges w) \<or>
         (exchanges w' = exchanges w @ [last (exchanges w')] \<and>
            (if status (snd (last (exchanges w'))) \<noteq> 200 then r = Inr None
             else r = Inr (Some (merge_day i (retrieved_users (json (snd (last (exchanges w')))))
                                   (fst st) (snd st)))))"
  using assms
  by (auto simp: day_step_def utcnow_minus_def session_get_def Let_def
           split: sum.splits prod.splits if_splits)

lemma day_step_SomeD:
  assumes "day_step env days i st w = (Inr (Some st'), w')"
  shows "\<exists>y. exchanges w' = exchanges w @ [y] \<and> status (snd y) = 200 \<and>
              st' = merge_day i (retrieved_users (json (snd y))) (fst st) (snd st)"
proof -
  from day_step_cases [OF assms]
  have "exchanges w' = exchanges w @ [last (exchanges w')]"
    and "status (snd (last (exchanges w'))) = 200"
    and "st' = merge_day i (retrieved_users (json (snd (last (exchanges w'))))) (fst st) (snd st)"
    by (auto split: if_splits)
  then show ?thesis by (intro exI [of _ "last (exchanges w')"]) simp
qed

lemma loop_log_Cons:
  "loop_log r n ys \<Longrightarrow> status (snd y) = 200 \<Longrightarrow> loop_log r (Suc n) (y # ys)"
  by (auto simp: loop_log_def split: sum.splits option.splits dest: in_set_butlastD)

lemma day_loop_log:
  "day_loop env days is st w = (r, w') \<Longrightarrow>
     \<exists>ys. exchanges w' = exchanges w @ ys \<and> loop_log r (length is) ys"
proof (induction "is" arbitrary: st w)
  case Nil
  then show ?case by (auto simp: loop_log_def)
next
  case (Cons i rest)
  obtain r1 w1 where step: "day_step env days i st w = (r1, w1)"
    by (cases "day_step env days i st w")
  define y where "y = last (exchanges w1)"
  from day_step_cases [OF step]
  have "(\<exists>e. r1 = Inl e \<and> exchanges w1 = exchanges w) \<or>
        (exchanges w1 = exchanges w @ [y] \<and> status (snd y) \<noteq> 200 \<and> r1 = Inr None) \<or>
        (exchanges w1 = exchanges w @ [y] \<and> status (snd y) = 200 \<and> (\<exists>st'. r1 = Inr (Some st')))"
    unfolding y_def by (auto split: if_splits)
  then consider
      (raised) e where "r1 = Inl e" "exchanges w1 = exchanges w"
    | (failed) "exchanges w1 = exchanges w @ [y]" "status (snd y) \<noteq> 200" "r1 = Inr None"
    | (merged) st' where "exchanges w1 = exchanges w @ [y]" "status (snd y) = 200"
        "r1 = Inr (Some st')"
    by blast
  then show ?case
  proof cases
    case raised
    with Cons.prems step have "r = Inl e" "w' = w1" by auto
    with raised show ?thesis by (auto simp: loop_log_def)
  next
    case failed
    with Cons.prems step have "r = Inr None" "w' = w1" by auto
    with failed show ?thesis by (auto simp: loop_log_def)
  next
    case merged
    with Cons.prems step have "day_loop env days rest st' w1 = (r, w')" by auto
    from Cons.IH [OF this] obtain ys where
      ys: "exchanges w' = exchanges w1 @ ys" "loop_log r (length rest) ys" by blast
    from ys(2) merged(2) have "loop_log r (length (i # rest)) (y # ys)"
      by (simp add: loop_log_Cons)
    moreover from ys(1) merged(1) have "exchanges w' = exchanges w @ y # ys" by simp
    ultimately show ?thesis by blast
  qed
qed

text \<open>Induction over a run of the loop that reaches its end: a property of the state that
  every merge of a response of the run carries one step further.\<close>

lemma day_loop_induct:
  assumes "day_loop env days is st w = (Inr (Some st'), w')"
      and "exchanges w' = exchanges w @ ys"
      and "P n st"
      and "\<And>k i nm gd y. y \<in> set ys \<Longrightarrow> P k (nm, gd) \<Longrightarrow>
             P (Suc k) (merge_day i (retrieved_users (json (snd y))) nm gd)"
  shows "P (n + length is) st'"
  using assms
proof (induction "is" arbitrary: st w n ys)
  case Nil
  then show ?case by simp
next
  case (Cons i rest)
  obtain r1 w1 where step: "day_step env days i st w = (r1, w1)"
    by (cases "day_step env days i st w")
  with Cons.prems(1) obtain st1 where r1: "r1 = Inr (Some st1)"
    and rest: "day_loop env days rest st1 w1 = (Inr (Some st'), w')"
    by (auto split: sum.splits option.splits)
  from day_step_SomeD step r1 obtain y where
    y: "exchanges w1 = exchanges w @ [y]"
       "st1 = merge_day i (retrieved_users (json (snd y))) (fst st) (snd st)"
    by blast
  from day_loop_log [OF rest] obtain zs where zs: "exchanges w' = exchanges w1 @ zs" by blast
  with y(1) Cons.prems(2) have ys: "ys = y # zs" by simp
  have "P (Suc n) st1"
    using Cons.prems(4) [of y n "fst st" "snd st" i] Cons.prems(3) ys y(2) by simp
  from Cons.IH [OF rest zs this] Cons.prems(4) ys
  show ?case by simp
qed

lemma snd_merge_day:
  "snd (merge_day i ret nm gd) =
     map (\<lambda>(uid, data). (uid, data @ [(i + 1, (if data \<noteq> [] then snd (last data) else 0)
            + (case map_of ret uid of None \<Rightarrow> 0 | Some r \<Rightarrow> messages r))])) gd"
  by (induction i ret nm gd rule: merge_day.induct)
     (simp_all add: Let_def case_prod_beta split: option.splits)

lemma merge_day_keys: "map fst (snd (merge_day i ret nm gd)) = map fst gd"
  by (simp add: snd_merge_day case_prod_beta comp_def)

lemma fst_merge_day:
  "map_of (fst (merge_day i ret nm gd)) u =
     (if u \<in> fst ` set gd \<and> map_of ret u \<noteq> None
      then map_option user (map_of ret u) else map_of nm u)"
  by (induction i ret nm gd rule: merge_day.induct)
     (auto simp: Let_def case_prod_beta update_conv' split: option.splits)

lemma dict_of_keys: "fst ` set (dict_of key val xs) = key ` set xs"
proof -
  have "fst ` set (foldl (\<lambda>d x. AList.update (key x) (val x) d) d xs)
          = fst ` set d \<union> key ` set xs" for d
    by (induction xs arbitrary: d) (auto simp: dom_update)
  then show ?thesis by (simp add: dict_of_def)
qed

lemma map_of_dict_of:
  "map_of (dict_of key val xs) k = map_option val (find (\<lambda>x. key x = k) (rev xs))"
proof -
  have "map_of (foldl (\<lambda>d x. AList.update (key x) (val x) d) d xs) k
          = (case find (\<lambda>x. key x = k) (rev xs) of None \<Rightarrow> map_of d k | Some x \<Rightarrow> Some (val x))"
    for d
    by (induction xs arbitrary: d rule: rev_induct) (auto simp: update_conv' split: option.splits)
  then show ?thesis by (simp add: dict_of_def split: option.splits)
qed

lemma seed_keys: "map fst (seed nm) = map fst nm"
  by (simp add: seed_def case_prod_beta comp_def)

lemma seed_series: "(u, s) \<in> set (seed nm) \<Longrightarrow> s = [(0, 0)]"
  by (auto simp: seed_def)

section \<open>Invariants of the series\<close>

lemma all_series_empty_iff: "all_series_empty gd \<longleftrightarrow> (\<forall>x \<in> set gd. snd x = [])"
  by (simp add: all_series_empty_def list_all_iff)

lemma dict_of_nonempty: "xs \<noteq> [] \<Longrightarrow> dict_of key val xs \<noteq> []"
  using dict_of_keys [of key val xs] by (cases xs) auto

lemma seed_nonempty: "nm \<noteq> [] \<Longrightarrow> seed nm \<noteq> []"
  by (simp add: seed_def)

text \<open>Every merge appends one point to every series and keeps the keys.\<close>

lemma day_loop_series:
  assumes run: "day_loop env days is (nm, gd) w = (Inr (Some (nm', gd')), w')"
      and base: "\<forall>x \<in> set gd. length (snd x) = Suc n \<and> hd (snd x) = p"
  shows "map fst gd' = map fst gd \<and>
         (\<forall>x \<in> set gd'. length (snd x) = Suc (n + length is) \<and> hd (snd x) = p)"
proof -
  from day_loop_log [OF run] obtain ys where ys: "exchanges w' = exchanges w @ ys" by blast
  define P where "P k st \<longleftrightarrow> map fst (snd st) = map fst gd \<and>
       (\<forall>x \<in> set (snd st). length (snd x) = Suc k \<and> hd (snd x) = p)"
    for k and st :: "names \<times> graph_data"
  have "P (n + length is) (nm', gd')"
  proof (rule day_loop_induct [OF run ys, where P = P])
    show "P n (nm, gd)" using base by (simp add: P_def)
  next
    fix k i nm1 gd1 y
    assume "P k (nm1, gd1)"
    then show "P (Suc k) (merge_day i (retrieved_users (json (snd y))) nm1 gd1)"
      unfolding P_def snd_merge_day
      by (auto simp: case_prod_beta comp_def)
  qed
  then show ?thesis by (simp add: P_def)
qed

lemma day_loop_nonempty:
  assumes run: "day_loop env days is (nm, gd) w = (Inr (Some (nm', gd')), w')"
      and base: "gd \<noteq> []" "\<forall>x \<in> set gd. snd x \<noteq> []"
  shows "gd' \<noteq> [] \<and> (\<forall>x \<in> set gd'. snd x \<noteq> [])"
proof -
  from day_loop_log [OF run] obtain ys where ys: "exchanges w' = exchanges w @ ys" by blast
  define P where "P k st \<longleftrightarrow> snd st \<noteq> [] \<and> (\<forall>x \<in> set (snd st). snd x \<noteq> [])"
    for k :: nat and st :: "names \<times> graph_data"
  have "P (0 + length is) (nm', gd')"
  proof (rule day_loop_induct [OF run ys, where P = P])
    show "P 0 (nm, gd)" using base by (simp add: P_def)
  next
    fix k i nm1 gd1 y
    assume "P k (nm1, gd1)"
    then show "P (Suc k) (merge_day i (retrieved_users (json (snd y))) nm1 gd1)"
      unfolding P_def snd_merge_day
      by (auto simp: case_prod_beta)
  qed
  then show ?thesis by (simp add: P_def)
qed

lemma find_in_set: "find P xs = Some x \<Longrightarrow> x \<in> set xs"
  by (induction xs) (auto split: if_splits)

lemma sorted_le_last: "sorted xs \<Longrightarrow> v \<in> set xs \<Longrightarrow> v \<le> last xs"
  for xs :: "int list"
  by (induction xs) auto

lemma retrieved_users_in_rows:
  "map_of (retrieved_users rows) u = Some r \<Longrightarrow> r \<in> set rows"
  by (auto simp: retrieved_users_def map_of_dict_of dest: find_in_set)

lemma day_loop_sorted:
  assumes run: "day_loop env days is (nm, gd) w = (Inr (Some (nm', gd')), w')"
      and ys: "exchanges w' = exchanges w @ ys"
      and nonneg: "\<forall>y \<in> set ys. \<forall>r \<in> set (json (snd y)). 0 \<le> messages r"
      and base: "\<forall>x \<in> set gd. snd x \<noteq> [] \<and> sorted (map snd (snd x))"
  shows "\<forall>x \<in> set gd'. sorted (map snd (snd x))"
proof -
  define P where "P k st \<longleftrightarrow> (\<forall>x \<in> set (snd st). snd x \<noteq> [] \<and> sorted (map snd (snd x)))"
    for k :: nat and st :: "names \<times> graph_data"
  have "P (0 + length is) (nm', gd')"
  proof (rule day_loop_induct [OF run ys, where P = P])
    show "P 0 (nm, gd)" using base by (simp add: P_def)
  next
    fix k i nm1 gd1 y
    assume y: "y \<in> set ys" and P: "P k (nm1, gd1)"
    have "snd x @ [q] \<noteq> [] \<and> sorted (map snd (snd x @
            [(i + 1, (if snd x \<noteq> [] then snd (last (snd x)) else 0)
               + (case map_of (retrieved_users (json (snd y))) (fst x) of
                    None \<Rightarrow> 0 | Some r \<Rightarrow> messages r))]))"
      if x: "x \<in> set gd1" for x q
    proof -
      from P x have ne: "snd x \<noteq> []" and so: "sorted (map snd (snd x))"
        by (auto simp: P_def)
      have m: "0 \<le> (case map_of (retrieved_users (json (snd y))) (fst x) of
                    None \<Rightarrow> 0 | Some r \<Rightarrow> messages r)"
        using nonneg y by (auto split: option.splits dest: retrieved_users_in_rows)
      have "v \<le> snd (last (snd x))" if "v \<in> set (map snd (snd x))" for v
        using sorted_le_last [OF so that] ne by (simp add: last_map)
      with so ne m show ?thesis
        by (fastforce simp: sorted_append)
    qed
    then show "P (Suc k) (merge_day i (retrieved_users (json (snd y))) nm1 gd1)"
      unfolding P_def snd_merge_day
      by (auto simp: case_prod_beta)
  qed
  then show ?thesis by (simp add: P_def)
qed

section \<open>The log of the aggregation\<close>

lemma plot_series_exchanges:
  "plot_series nm tot gd w = (r, w') \<Longrightarrow> exchanges w' = exchanges w"
  by (induction nm tot gd w rule: plot_series.induct) (auto split: option.splits)

lemma window_params_exchanges:
  "window_params env days limit members w = (r, w') \<Longrightarrow> exchanges w' = exchanges w"
  by (auto simp: window_params_def utcnow_minus_def split: sum.splits)

text \<open>A run of the aggregation that returns the dicts: the exchange for the window, then
  the loop from the seeded series to its end.\<close>

lemma collect_series_SomeD:
  assumes "collect_series env days limit members w = (Inr (Some (nm', tot, gd)), w')"
  shows "\<exists>w2 y. exchanges w2 = exchanges w @ [y] \<and> status (snd y) = 200 \<and>
           json (snd y) \<noteq> [] \<and> tot = dict_of discord_id messages (json (snd y)) \<and>
           day_loop env days (py_range days)
             (dict_of discord_id user (json (snd y)),
              seed (dict_of discord_id user (json (snd y)))) w2 = (Inr (Some (nm', gd)), w')"
proof -
  obtain rp w1 where wp: "window_params env days limit members w = (rp, w1)"
    by (cases "window_params env days limit members w")
  have e1: "exchanges w1 = exchanges w" using wp by (rule window_params_exchanges)
  from assms wp obtain ps where rp: "rp = Inr ps"
    by (cases rp) (auto simp: collect_series_def)
  define rq where "rq = \<lparr>url = stats_url, params = ps\<rparr>"
  define resp where "resp = http_get env (exchanges w1) rq"
  define w2 where "w2 = w1\<lparr>exchanges := exchanges w1 @ [(rq, resp)]\<rparr>"
  have sg: "session_get env rq w1 = (resp, w2)"
    by (simp add: session_get_def resp_def w2_def Let_def)
  have e2: "exchanges w2 = exchanges w @ [(rq, resp)]" by (simp add: w2_def e1)
  from assms wp rp sg have ok: "status resp = 200" "json resp \<noteq> []"
    by (auto simp: collect_series_def rq_def split: if_splits)
  with assms wp rp sg have
    "tot = dict_of discord_id messages (json resp) \<and>
     day_loop env days (py_range days)
       (dict_of discord_id user (json resp), seed (dict_of discord_id user (json resp))) w2
       = (Inr (Some (nm', gd)), w')"
    by (auto simp: collect_series_def rq_def Let_def
             split: if_splits prod.splits sum.splits option.splits)
  with e2 ok show ?thesis
    by (intro exI [of _ w2] exI [of _ "(rq, resp)"]) simp
qed

lemma collect_series_log:
  assumes "collect_series env days limit members w = (r, w')"
  shows "(\<exists>e. r = Inl e \<and> exchanges w' = exchanges w) \<or>
         (\<exists>y. exchanges w' = exchanges w @ [y] \<and> r = Inr None \<and>
               (status (snd y) \<noteq> 200 \<or> json (snd y) = [])) \<or>
         (\<exists>y ys. exchanges w' = exchanges w @ y # ys \<and> status (snd y) = 200 \<and>
               json (snd y) \<noteq> [] \<and> loop_log r (nat days) ys)"
proof -
  obtain rp w1 where wp: "window_params env days limit members w = (rp, w1)"
    by (cases "window_params env days limit members w")
  have e1: "exchanges w1 = exchanges w" using wp by (rule window_params_exchanges)
  show ?thesis
  proof (cases rp)
    case (Inl e)
    with assms wp e1 show ?thesis by (auto simp: collect_series_def)
  next
    case (Inr ps)
    define rq where "rq = \<lparr>url = stats_url, params = ps\<rparr>"
    define resp where "resp = http_get env (exchanges w1) rq"
    define w2 where "w2 = w1\<lparr>exchanges := exchanges w1 @ [(rq, resp)]\<rparr>"
    have sg: "session_get env rq w1 = (resp, w2)"
      by (simp add: session_get_def resp_def w2_def Let_def)
    have e2: "exchanges w2 = exchanges w @ [(rq, resp)]" by (simp add: w2_def e1)
    show ?thesis
    proof (cases "status resp \<noteq> 200 \<or> json resp = []")
      case True
      with assms wp Inr sg have "r = Inr None" "w' = w2"
        by (auto simp: collect_series_def rq_def split: if_splits)
      with True e2 have "exchanges w' = exchanges w @ [(rq, resp)] \<and> r = Inr None \<and>
               (status (snd (rq, resp)) \<noteq> 200 \<or> json (snd (rq, resp)) = [])" by simp
      then show ?thesis by blast
    next
      case False
      define nm where "nm = dict_of discord_id user (json resp)"
      obtain rl w3 where dl: "day_loop env days (py_range days) (nm, seed nm) w2 = (rl, w3)"
        by (cases "day_loop env days (py_range days) (nm, seed nm) w2")
      from day_loop_log [OF dl] obtain ys where
        ys: "exchanges w3 = exchanges w2 @ ys" "loop_log rl (nat days) ys"
        by (auto simp: length_py_range)
      have "nm \<noteq> []" using False by (simp add: nm_def dict_of_nonempty)
      then have sd: "seed nm \<noteq> []" "\<forall>x \<in> set (seed nm). snd x \<noteq> []"
        by (auto simp: seed_nonempty dest: seed_series)
      have nonempty: "\<not> all_series_empty gd" if "rl = Inr (Some (nm', gd))" for nm' gd
        using day_loop_nonempty [OF dl [unfolded that] sd]
        by (cases gd) (auto simp: all_series_empty_iff)
      from assms wp Inr sg False dl nonempty
      have "w' = w3 \<and> (case rl of Inl e \<Rightarrow> r = Inl e | Inr None \<Rightarrow> r = Inr None
                        | Inr (Some st) \<Rightarrow> (\<exists>d. r = Inr (Some d)))"
        by (auto simp: collect_series_def rq_def nm_def Let_def
                 split: sum.splits option.splits if_splits)
      with ys(2) have "w' = w3" "loop_log r (nat days) ys"
        by (auto simp: loop_log_def split: sum.splits option.splits)
      with ys(1) e2 False
      have "exchanges w' = exchanges w @ (rq, resp) # ys \<and> status (snd (rq, resp)) = 200 \<and>
               json (snd (rq, resp)) \<noteq> [] \<and> loop_log r (nat days) ys" by simp
      then show ?thesis by blast
    qed
  qed
qed

lemma create_graph_messages_collect:
  assumes "create_graph_messages env days limit members w = (r, w')"
  shows "\<exists>rc wc. collect_series env days limit members w = (rc, wc) \<and>
           exchanges w' = exchanges wc \<and>
           (case rc of Inl e \<Rightarrow> r = Inl e | Inr None \<Rightarrow> r = Inr False \<and> w' = wc
            | Inr (Some d) \<Rightarrow> r \<noteq> Inr False)"
proof -
  obtain rc wc where c: "collect_series env days limit members w = (rc, wc)"
    by (cases "collect_series env days limit members w")
  have "exchanges w' = exchanges wc \<and>
           (case rc of Inl e \<Rightarrow> r = Inl e | Inr None \<Rightarrow> r = Inr False \<and> w' = wc
            | Inr (Some d) \<Rightarrow> r \<noteq> Inr False)"
    using assms c
    by (auto simp: create_graph_messages_def Let_def utcnow_minus_def
             split: sum.splits option.splits prod.splits dest: plot_series_exchanges)
  with c show ?thesis by blast
qed

section \<open>The requests of the days\<close>

lemma day_step_request:
  assumes "day_step env days i st w = (r, w')"
      and "exchanges w' = exchanges w @ [y]"
  shows "day_exchange env days (ticks w) i y \<and> ticks w' = ticks w + 2"
  using assms
  by (auto simp: day_step_def utcnow_minus_def session_get_def Let_def day_exchange_def
           split: sum.splits prod.splits if_splits)

lemma day_loop_requests:
  "day_loop env days is st w = (r, w') \<Longrightarrow> exchanges w' = exchanges w @ zs \<Longrightarrow>
     \<forall>j < length zs. day_exchange env days (ticks w + 2 * j) (is ! j) (zs ! j)"
proof (induction "is" arbitrary: st w zs)
  case Nil
  then show ?case by simp
next
  case (Cons i rest)
  obtain r1 w1 where step: "day_step env days i st w = (r1, w1)"
    by (cases "day_step env days i st w")
  define y where "y = last (exchanges w1)"
  from day_step_cases [OF step]
  have "(\<exists>e. r1 = Inl e \<and> exchanges w1 = exchanges w) \<or>
        (exchanges w1 = exchanges w @ [y] \<and> r1 = Inr None) \<or>
        (exchanges w1 = exchanges w @ [y] \<and> (\<exists>st'. r1 = Inr (Some st')))"
    unfolding y_def by (auto split: if_splits)
  then consider
      (raised) e where "r1 = Inl e" "exchanges w1 = exchanges w"
    | (failed) "exchanges w1 = exchanges w @ [y]" "r1 = Inr None"
    | (merged) st' where "exchanges w1 = exchanges w @ [y]" "r1 = Inr (Some st')"
    by blast
  then show ?case
  proof cases
    case raised
    with Cons.prems step have "zs = []" by auto
    then show ?thesis by simp
  next
    case failed
    with Cons.prems step have "zs = [y]" by auto
    with day_step_request [OF step failed(1)] show ?thesis by simp
  next
    case merged
    with Cons.prems(1) step have rest: "day_loop env days rest st' w1 = (r, w')" by auto
    from day_loop_log [OF rest] obtain zs' where zs': "exchanges w' = exchanges w1 @ zs'"
      by blast
    with merged(1) Cons.prems(2) have zs: "zs = y # zs'" by simp
    from day_step_request [OF step merged(1)]
    have y: "day_exchange env days (ticks w) i y" and t: "ticks w1 = ticks w + 2" by simp_all
    from Cons.IH [OF rest zs']
    have all: "\<forall>j < length zs'. day_exchange env days (ticks w1 + 2 * j) (rest ! j) (zs' ! j)" .
    show ?thesis
    proof (intro allI impI)
      fix j assume "j < length zs"
      then show "day_exchange env days (ticks w + 2 * j) ((i # rest) ! j) (zs ! j)"
        using y all t zs by (cases j) simp_all
    qed
  qed
qed

text \<open>The exchanges of the aggregation after the first are those of the days, in turn.\<close>

lemma collect_series_requests:
  assumes "collect_series env days limit members w = (r, w')"
      and "exchanges w' = exchanges w @ y # zs"
  shows "\<forall>j < length zs. day_exchange env days (Suc (ticks w) + 2 * j) (int j) (zs ! j)"
proof -
  obtain rp w1 where wp: "window_params env days limit members w = (rp, w1)"
    by (cases "window_params env days limit members w")
  then have w1: "exchanges w1 = exchanges w" "ticks w1 = Suc (ticks w)"
    by (auto simp: window_params_def utcnow_minus_def split: sum.splits)
  from assms wp w1 obtain ps where rp: "rp = Inr ps"
    by (cases rp) (auto simp: collect_series_def)
  define rq where "rq = \<lparr>url = stats_url, params = ps\<rparr>"
  define resp where "resp = http_get env (exchanges w1) rq"
  define w2 where "w2 = w1\<lparr>exchanges := exchanges w1 @ [(rq, resp)]\<rparr>"
  have sg: "session_get env rq w1 = (resp, w2)"
    by (simp add: session_get_def resp_def w2_def Let_def)
  have w2: "exchanges w2 = exchanges w @ [(rq, resp)]" "ticks w2 = Suc (ticks w)"
    by (simp_all add: w2_def w1)
  show ?thesis
  proof (cases "status resp \<noteq> 200 \<or> json resp = []")
    case True
    with assms(1) wp rp sg have "w' = w2"
      by (auto simp: collect_series_def rq_def split: if_splits)
    with assms(2) w2 have "zs = []" by simp
    then show ?thesis by simp
  next
    case False
    define nm where "nm = dict_of discord_id user (json resp)"
    obtain rl w3 where dl: "day_loop env days (py_range days) (nm, seed nm) w2 = (rl, w3)"
      by (cases "day_loop env days (py_range days) (nm, seed nm) w2")
    from assms(1) wp rp sg False dl have w': "w' = w3"
      by (auto simp: collect_series_def rq_def nm_def Let_def
               split: sum.splits option.splits if_splits)
    from day_loop_log [OF dl] obtain zs' where
      zs': "exchanges w3 = exchanges w2 @ zs'" and len: "length zs' \<le> nat days"
      by (auto simp: loop_log_def length_py_range)
    with assms(2) w' w2 have zs: "zs' = zs" by simp
    from day_loop_requests [OF dl zs'] zs w2(2)
    have "\<forall>j < length zs. day_exchange env days (Suc (ticks w) + 2 * j)
            (py_range days ! j) (zs ! j)"
      by simp
    with len zs show ?thesis by (simp add: py_range_nth)
  qed
qed

text \<open>A run that returns \<^verbatim>\<open>True\<close> has gone through the aggregation to its end.\<close>

lemma create_graph_messages_TrueD:
  assumes "create_graph_messages env days limit members w = (Inr True, w')"
  shows "\<exists>user_names num_messages gd wc.
           collect_series env days limit members w
             = (Inr (Some (user_names, num_messages, gd)), wc) \<and>
           exchanges w' = exchanges wc"
proof -
  from create_graph_messages_collect [OF assms] obtain rc wc where
    c: "collect_series env days limit members w = (rc, wc)"
    and e: "exchanges w' = exchanges wc"
    and r: "case rc of Inl e \<Rightarrow> Inr True = (Inl e :: error + bool)
            | Inr None \<Rightarrow> Inr True = (Inr False :: error + bool) \<and> w' = wc
            | Inr (Some d) \<Rightarrow> True"
    by (fastforce split: sum.splits option.splits)
  from r obtain d where "rc = Inr (Some d)"
    by (auto split: sum.splits option.splits)
  with c e show ?thesis by (cases d) auto
qed

text \<open>The aggregation returns \<^verbatim>\<open>False\<close> only on a response: the first one when it has
  another status than 200 or is empty, or a later one that has another status.\<close>

lemma collect_series_False_cause:
  assumes "collect_series env days limit members w = (Inr None, w')"
  shows "\<exists>y ys. exchanges w' = exchanges w @ y # ys \<and>
           (if ys = [] then status (snd y) \<noteq> 200 \<or> json (snd y) = []
            else status (snd (last ys)) \<noteq> 200)"
  using collect_series_log [OF assms]
  by (fastforce simp: loop_log_def)

section \<open>The series of a run\<close>

lemmas run_defs =
  collect_series_def window_params_def utcnow_minus_def session_get_def test_env_def
  scripted_def new_world_def ok_def stat_def py_range_def upto_rec1 day_step_def dict_of_def
  seed_def all_series_empty_def retrieved_users_def Let_def

lemma demo_run:
  "collect_series (test_env demo_script) 2 0 None new_world =
     (Inr (Some ([(''1'', ''alice#0001''), (''2'', ''robert#0002'')],
                 [(''1'', 5), (''2'', 3)], demo_series)),
      new_world\<lparr>ticks := 5, exchanges := demo_log\<rparr>)"
  by (simp add: run_defs demo_script_def demo_rows_def demo_log_def demo_series_def)

lemma demo_loop:
  "day_loop (test_env demo_script) 2 [0, 1]
     (dict_of discord_id user demo_rows, seed (dict_of discord_id user demo_rows))
     (new_world\<lparr>ticks := 1, exchanges := [hd demo_log]\<rparr>) =
     (Inr (Some ([(''1'', ''alice#0001''), (''2'', ''robert#0002'')], demo_series)),
      new_world\<lparr>ticks := 5, exchanges := demo_log\<rparr>)"
  by (simp add: run_defs demo_script_def demo_rows_def demo_log_def demo_series_def)

text \<open>
  C9. When the response for the window is not empty, every state that the loop reaches
  (the state after any list \<open>is\<close> of day indices, so after every prefix of
  \<^verbatim>\<open>range(days)\<close>) has at least one series and no empty series: the test of line 103
  is false there, and the \<^verbatim>\<open>return False\<close> of line 104 is never taken. So the
  aggregation returns \<^verbatim>\<open>False\<close> only on a response of the service
  (\<open>collect_series_False_cause\<close>).
\<close>

theorem series_never_empty:
  assumes "rows \<noteq> []"
      and "day_loop env days is
             (dict_of discord_id user rows, seed (dict_of discord_id user rows)) w
           = (Inr (Some (user_names, gd)), w')"
  shows "gd \<noteq> [] \<and> (\<forall>x \<in> set gd. snd x \<noteq> []) \<and> \<not> all_series_empty gd"
proof -
  have "dict_of discord_id user rows \<noteq> []"
    using assms(1) by (rule dict_of_nonempty)
  then have "seed (dict_of discord_id user rows) \<noteq> []"
    and "\<forall>x \<in> set (seed (dict_of discord_id user rows)). snd x \<noteq> []"
    by (auto simp: seed_nonempty dest: seed_series)
  from day_loop_nonempty [OF assms(2) this]
  show ?thesis by (cases gd) (auto simp: all_series_empty_iff)
qed

theorem series_never_empty_witness:
  "demo_rows \<noteq> []
   \<and> day_loop (test_env demo_script) 2 [0, 1]
       (dict_of discord_id user demo_rows, seed (dict_of discord_id user demo_rows))
       (new_world\<lparr>ticks := 1, exchanges := [hd demo_log]\<rparr>)
     = (Inr (Some ([(''1'', ''alice#0001''), (''2'', ''robert#0002'')], demo_series)),
        new_world\<lparr>ticks := 5, exchanges := demo_log\<rparr>)
   \<and> demo_series \<noteq> [] \<and> list_all (\<lambda>x. snd x \<noteq> []) demo_series
   \<and> \<not> all_series_empty demo_series"
proof -
  have rows: "demo_rows \<noteq> []" by (simp add: demo_rows_def)
  from series_never_empty [OF rows demo_loop] rows demo_loop show ?thesis
    by (simp add: list_all_iff)
qed

text \<open>
  C1. When the aggregation of \<^verbatim>\<open>create_graph_messages\<close> returns its dicts and
  \<open>1 \<le> days\<close>, every user of a row of the first response of the run (the response for the
  window) has a series, of \<open>days + 1\<close> points, the first of which is \<open>(0, 0)\<close>. Every run
  of \<^verbatim>\<open>create_graph_messages\<close> that returns \<^verbatim>\<open>True\<close> is such a run, with the same
  exchanges (\<open>create_graph_messages_TrueD\<close>).
\<close>

theorem series_length:
  assumes "collect_series env days limit members w
           = (Inr (Some (user_names, num_messages, gd)), w')"
      and "exchanges w' = exchanges w @ y # ys"
      and "1 \<le> days"
      and "r \<in> set (json (snd y))"
  shows "\<exists>s. map_of gd (discord_id r) = Some s \<and> int (length s) = days + 1 \<and> hd s = (0, 0)"
proof -
  from collect_series_SomeD [OF assms(1)] obtain w2 y' where
    log: "exchanges w2 = exchanges w @ [y']"
    and loop: "day_loop env days (py_range days)
             (dict_of discord_id user (json (snd y')),
              seed (dict_of discord_id user (json (snd y')))) w2
           = (Inr (Some (user_names, gd)), w')"
    by blast
  from day_loop_log [OF loop] log assms(2) have y': "y' = y" by auto
  define nm where "nm = dict_of discord_id user (json (snd y))"
  have base: "\<forall>x \<in> set (seed nm). length (snd x) = Suc 0 \<and> hd (snd x) = (0, 0)"
    by (auto dest: seed_series)
  from day_loop_series [OF loop [unfolded y', folded nm_def] base]
  have keys: "map fst gd = map fst (seed nm)"
    and len: "\<forall>x \<in> set gd. length (snd x) = Suc (length (py_range days)) \<and> hd (snd x) = (0, 0)"
    by auto
  have "discord_id r \<in> fst ` set nm"
    using assms(4) by (simp add: nm_def dict_of_keys)
  also have "fst ` set nm = fst ` set gd"
    using keys by (metis seed_keys set_map)
  finally obtain s where s: "map_of gd (discord_id r) = Some s"
    by (meson map_of_eq_None_iff not_None_eq)
  then have "(discord_id r, s) \<in> set gd" by (rule map_of_SomeD)
  with len have "length s = Suc (nat days)" "hd s = (0, 0)"
    by (auto simp: length_py_range)
  with s assms(3) show ?thesis by simp
qed

theorem series_length_witness:
  "collect_series (test_env demo_script) 2 0 None new_world
     = (Inr (Some ([(''1'', ''alice#0001''), (''2'', ''robert#0002'')],
                   [(''1'', 5), (''2'', 3)], demo_series)),
        new_world\<lparr>ticks := 5, exchanges := demo_log\<rparr>)
   \<and> exchanges (new_world\<lparr>ticks := 5, exchanges := demo_log\<rparr>)
       = exchanges new_world @ hd demo_log # tl demo_log
   \<and> (1::int) \<le> 2
   \<and> stat ''2'' ''bob#0002'' 3 \<in> set (json (snd (hd demo_log)))
   \<and> (\<exists>s. map_of demo_series (discord_id (stat ''2'' ''bob#0002'' 3)) = Some s
          \<and> int (length s) = 2 + 1 \<and> hd s = (0, 0))"
proof -
  have log: "exchanges (new_world\<lparr>ticks := 5, exchanges := demo_log\<rparr>)
       = exchanges new_world @ hd demo_log # tl demo_log"
    by (simp add: new_world_def demo_log_def)
  have days: "(1::int) \<le> 2" by simp
  have row: "stat ''2'' ''bob#0002'' 3 \<in> set (json (snd (hd demo_log)))"
    by (simp add: demo_log_def demo_rows_def ok_def)
  from series_length [OF demo_run log days row] demo_run log row show ?thesis by simp
qed

text \<open>
  C2. When no response of the run has a negative \<^verbatim>\<open>messages\<close> value, the counts of
  every series that the aggregation of \<^verbatim>\<open>create_graph_messages\<close> returns do not
  decrease from one point to the next.
\<close>

theorem series_nondecreasing:
  assumes "collect_series env days limit members w
           = (Inr (Some (user_names, num_messages, gd)), w')"
      and "exchanges w' = exchanges w @ ys"
      and "\<forall>y \<in> set ys. \<forall>r \<in> set (json (snd y)). 0 \<le> messages r"
      and "(uid, s) \<in> set gd"
      and "Suc k < length s"
  shows "snd (s ! k) \<le> snd (s ! Suc k)"
proof -
  from collect_series_SomeD [OF assms(1)] obtain w2 y where
    log: "exchanges w2 = exchanges w @ [y]"
    and loop: "day_loop env days (py_range days)
             (dict_of discord_id user (json (snd y)),
              seed (dict_of discord_id user (json (snd y)))) w2
           = (Inr (Some (user_names, gd)), w')"
    by blast
  from day_loop_log [OF loop] obtain zs where zs: "exchanges w' = exchanges w2 @ zs" by blast
  with log assms(2) have "ys = y # zs" by simp
  with assms(3) have nonneg: "\<forall>y \<in> set zs. \<forall>r \<in> set (json (snd y)). 0 \<le> messages r"
    by simp
  have base: "\<forall>x \<in> set (seed (dict_of discord_id user (json (snd y)))).
                snd x \<noteq> [] \<and> sorted (map snd (snd x))"
    by (auto dest: seed_series)
  from day_loop_sorted [OF loop zs nonneg base] assms(4)
  have "sorted (map snd s)" by auto
  with assms(5) have "map snd s ! k \<le> map snd s ! Suc k"
    by (intro sorted_nth_mono) simp_all
  with assms(5) show ?thesis by simp
qed

theorem series_nondecreasing_witness:
  "collect_series (test_env demo_script) 2 0 None new_world
     = (Inr (Some ([(''1'', ''alice#0001''), (''2'', ''robert#0002'')],
                   [(''1'', 5), (''2'', 3)], demo_series)),
        new_world\<lparr>ticks := 5, exchanges := demo_log\<rparr>)
   \<and> exchanges (new_world\<lparr>ticks := 5, exchanges := demo_log\<rparr>) = exchanges new_world @ demo_log
   \<and> list_all (\<lambda>y. list_all (\<lambda>r. 0 \<le> messages r) (json (snd y))) demo_log
   \<and> (''1'', [(0, 0), (1, 2), (2, 5)]) \<in> set demo_series
   \<and> Suc 1 < length [(0::int, 0::int), (1, 2), (2, 5)]
   \<and> snd ([(0::int, 0::int), (1, 2), (2, 5)] ! 1) \<le> snd ([(0, 0), (1, 2), (2, 5)] ! Suc 1)"
proof -
  have log: "exchanges (new_world\<lparr>ticks := 5, exchanges := demo_log\<rparr>)
       = exchanges new_world @ demo_log"
    by (simp add: new_world_def)
  have nonneg: "\<forall>y \<in> set demo_log. \<forall>r \<in> set (json (snd y)). 0 \<le> messages r"
    by (simp add: demo_log_def demo_rows_def ok_def stat_def)
  have mem: "(''1'', [(0, 0), (1, 2), (2, 5)]) \<in> set demo_series"
    by (simp add: demo_series_def)
  have k: "Suc 1 < length [(0::int, 0::int), (1, 2), (2, 5)]" by simp
  from series_nondecreasing [OF demo_run log nonneg mem k] demo_run log nonneg mem
  show ?thesis by (simp add: list_all_iff)
qed

section \<open>The point appended for a day\<close>

lemma map_of_retrieved_users:
  "map_of (retrieved_users api_data) uid = find (\<lambda>x. discord_id x = uid) (rev api_data)"
  by (simp add: retrieved_users_def map_of_dict_of option.map_ident)

lemma retrieved_users_absent:
  "uid \<notin> discord_id ` set api_data \<Longrightarrow> map_of (retrieved_users api_data) uid = None"
  by (auto simp: map_of_retrieved_users find_None_iff)

text \<open>
  C3. One iteration of the loop, for day \<open>i\<close>, that merges its response (the last
  exchange of the log after it), and a known user: the entry \<open>(uid, data)\<close> at any position
  \<open>k\<close> of \<^verbatim>\<open>graph_data\<close>, whose series has a previous point. When no row of the
  response has the user's id, the point appended is \<open>(i + 1, c)\<close> with \<open>c\<close> the count of the
  previous point, and the stored name is unchanged. When \<open>r\<close> is the row of the response
  for the user (the last one with that id, which is the one \<^verbatim>\<open>retrieved_users\<close> keeps),
  the point appended is \<open>(i + 1, c + messages r)\<close> and the stored name is that of \<open>r\<close>.
\<close>

theorem carry_forward:
  assumes "day_step env days i (user_names, gd) w = (Inr (Some (user_names', gd')), w')"
      and "k < length gd"
      and "gd ! k = (uid, data)"
      and "data \<noteq> []"
  shows "let api_data = json (snd (last (exchanges w')))
         in (uid \<notin> discord_id ` set api_data \<longrightarrow>
               gd' ! k = (uid, data @ [(i + 1, snd (last data))]) \<and>
               map_of user_names' uid = map_of user_names uid)
          \<and> (\<forall>r. find (\<lambda>x. discord_id x = uid) (rev api_data) = Some r \<longrightarrow>
               gd' ! k = (uid, data @ [(i + 1, snd (last data) + messages r)]) \<and>
               map_of user_names' uid = Some (user r))"
proof -
  from day_step_SomeD [OF assms(1)] obtain y where
    y: "exchanges w' = exchanges w @ [y]"
    and m: "(user_names', gd') = merge_day i (retrieved_users (json (snd y))) user_names gd"
    by auto
  define ret where "ret = retrieved_users (json (snd y))"
  have gd': "gd' = snd (merge_day i ret user_names gd)"
    and nm': "user_names' = fst (merge_day i ret user_names gd)"
    using m by (simp_all add: ret_def flip: m)
  have mem: "uid \<in> fst ` set gd"
    using assms(2,3) by (metis fst_conv image_eqI nth_mem)
  have point: "gd' ! k = (uid, data @ [(i + 1, snd (last data)
                  + (case map_of ret uid of None \<Rightarrow> 0 | Some r \<Rightarrow> messages r))])"
    using assms(2,3,4) by (simp add: gd' snd_merge_day)
  have name: "map_of user_names' uid =
                (case map_of ret uid of None \<Rightarrow> map_of user_names uid | Some r \<Rightarrow> Some (user r))"
    using mem by (simp add: nm' fst_merge_day split: option.splits)
  have "last (exchanges w') = y" using y by simp
  with point name show ?thesis
    by (auto simp: Let_def ret_def map_of_retrieved_users retrieved_users_absent
             simp flip: map_of_retrieved_users)
qed

theorem carry_forward_witness:
  "day_step (test_env demo_script) 2 1
     ([(''1'', ''alice#0001''), (''2'', ''bob#0002'')],
      [(''1'', [(0, 0), (1, 2)]), (''2'', [(0, 0), (1, 0)])])
     (new_world\<lparr>ticks := 3, exchanges := take 2 demo_log\<rparr>)
   = (Inr (Some ([(''1'', ''alice#0001''), (''2'', ''robert#0002'')], demo_series)),
      new_world\<lparr>ticks := 5, exchanges := demo_log\<rparr>)
   \<and> find (\<lambda>x. discord_id x = ''2'') (rev (json (snd (last demo_log))))
       = Some (stat ''2'' ''robert#0002'' 3)
   \<and> demo_series ! 1 = (''2'', [(0, 0), (1, 0)] @ [(1 + 1, snd (last [(0::int, 0::int), (1, 0)]) + 3)])
   \<and> map_of [(''1'', ''alice#0001''), (''2'', ''robert#0002'')] ''2'' = Some ''robert#0002''"
proof -
  have run: "day_step (test_env demo_script) 2 1
     ([(''1'', ''alice#0001''), (''2'', ''bob#0002'')],
      [(''1'', [(0, 0), (1, 2)]), (''2'', [(0, 0), (1, 0)])])
     (new_world\<lparr>ticks := 3, exchanges := take 2 demo_log\<rparr>)
   = (Inr (Some ([(''1'', ''alice#0001''), (''2'', ''robert#0002'')], demo_series)),
      new_world\<lparr>ticks := 5, exchanges := demo_log\<rparr>)"
    by (simp add: run_defs demo_script_def demo_rows_def demo_log_def demo_series_def)
  have k: "1 < length [(''1'', [(0::int, 0::int), (1, 2)]), (''2'', [(0, 0), (1, 0)])]"
    by simp
  have nth: "[(''1'', [(0::int, 0::int), (1, 2)]), (''2'', [(0, 0), (1, 0)])] ! 1
               = (''2'', [(0, 0), (1, 0)])"
    by simp
  have ne: "[(0::int, 0::int), (1, 0)] \<noteq> []" by simp
  have present: "find (\<lambda>x. discord_id x = ''2'') (rev (json (snd (last demo_log))))
       = Some (stat ''2'' ''robert#0002'' 3)"
    by (simp add: demo_log_def ok_def stat_def)
  from carry_forward [OF run k nth ne] run present show ?thesis
    by (simp add: Let_def stat_def)
qed

section \<open>Failures of the service\<close>

lemma not_last_in_butlast:
  assumes "i < length zs" and "\<forall>z \<in> set (butlast zs). P z" and "\<not> P (zs ! i)"
  shows "Suc i = length zs"
proof (rule ccontr)
  assume "Suc i \<noteq> length zs"
  with assms(1) have "i < length (butlast zs)" by simp
  then have "butlast zs ! i \<in> set (butlast zs)" by (rule nth_mem)
  moreover have "butlast zs ! i = zs ! i"
    using \<open>i < length (butlast zs)\<close> by (simp add: nth_butlast)
  ultimately show False using assms(2,3) by simp
qed

lemma create_graph_messages_failed:
  assumes "create_graph_messages env days limit members w = (r, w')"
  shows "\<exists>rc wc. collect_series env days limit members w = (rc, wc) \<and>
           exchanges w' = exchanges wc \<and> (rc = Inr None \<longrightarrow> r = Inr False)"
proof -
  from create_graph_messages_collect [OF assms] obtain rc wc where
    "collect_series env days limit members w = (rc, wc) \<and> exchanges w' = exchanges wc \<and>
           (case rc of Inl e \<Rightarrow> r = Inl e | Inr None \<Rightarrow> r = Inr False \<and> w' = wc
            | Inr (Some d) \<Rightarrow> r \<noteq> Inr False)"
    by blast
  then have "collect_series env days limit members w = (rc, wc) \<and>
           exchanges w' = exchanges wc \<and> (rc = Inr None \<longrightarrow> r = Inr False)"
    by auto
  then show ?thesis by blast
qed

text \<open>
  C4. When the first exchange of a run of \<^verbatim>\<open>create_graph_messages\<close> (the one for the
  window) has a status other than 200 or an empty array, the function returns
  \<^verbatim>\<open>False\<close> and that exchange is the only one of the run.
\<close>

theorem window_failure_stops:
  assumes "create_graph_messages env days limit members w = (r, w')"
      and "exchanges w' = exchanges w @ y # ys"
      and "status (snd y) \<noteq> 200 \<or> json (snd y) = []"
  shows "r = Inr False \<and> ys = []"
proof -
  from create_graph_messages_failed [OF assms(1)] obtain rc wc where
    c: "collect_series env days limit members w = (rc, wc)"
    and e: "exchanges w' = exchanges wc"
    and r: "rc = Inr None \<longrightarrow> r = Inr False"
    by blast
  from collect_series_log [OF c] e assms(2,3) have "rc = Inr None \<and> ys = []"
    by auto
  with r show ?thesis by simp
qed

theorem window_failure_stops_witness:
  "create_graph_messages (test_env [\<lparr>status = 500, json = []\<rparr>]) 3 10 None new_world
     = (Inr False,
        new_world\<lparr>ticks := 1,
          exchanges := [(\<lparr>url = stats_url,
                          params = [(''start'', PStr (show_int 19997)), (''limit'', PInt 10)]\<rparr>,
                         \<lparr>status = 500, json = []\<rparr>)]\<rparr>)
   \<and> status (\<lparr>status = 500, json = []\<rparr> :: response) = 500"
proof -
  have run: "create_graph_messages (test_env [\<lparr>status = 500, json = []\<rparr>]) 3 10 None new_world
     = (Inr False,
        new_world\<lparr>ticks := 1,
          exchanges := [(\<lparr>url = stats_url,
                          params = [(''start'', PStr (show_int 19997)), (''limit'', PInt 10)]\<rparr>,
                         \<lparr>status = 500, json = []\<rparr>)]\<rparr>)"
    by (simp add: create_graph_messages_def run_defs)
  have log: "exchanges (new_world\<lparr>ticks := 1,
          exchanges := [(\<lparr>url = stats_url,
                          params = [(''start'', PStr (show_int 19997)), (''limit'', PInt 10)]\<rparr>,
                         \<lparr>status = 500, json = []\<rparr>)]\<rparr>)
       = exchanges new_world @
           (\<lparr>url = stats_url,
             params = [(''start'', PStr (show_int 19997)), (''limit'', PInt 10)]\<rparr>,
            \<lparr>status = 500, json = []\<rparr>) # []"
    by (simp add: new_world_def)
  have bad: "status (snd (\<lparr>url = stats_url,
             params = [(''start'', PStr (show_int 19997)), (''limit'', PInt 10)]\<rparr>,
            \<lparr>status = 500, json = []\<rparr>)) \<noteq> 200 \<or>
          json (snd (\<lparr>url = stats_url,
             params = [(''start'', PStr (show_int 19997)), (''limit'', PInt 10)]\<rparr>,
            \<lparr>status = 500, json = []\<rparr>)) = []"
    by simp
  from window_failure_stops [OF run log bad] run show ?thesis by simp
qed

text \<open>
  C5. The exchanges of a run are the one for the window, then one for each day index in
  turn. When the exchange for day \<open>i\<close> (the one at position \<open>i + 1\<close> of the run) has a
  status other than 200, the function returns \<^verbatim>\<open>False\<close> and that exchange is the last
  of the run, which has made \<open>1 + (i + 1)\<close> requests. That exchange is the request for
  day \<open>i\<close>: from \<open>days - i\<close> to \<open>days - i - 1\<close> days ago.
\<close>

theorem daily_failure_stops:
  assumes "create_graph_messages env days limit members w = (r, w')"
      and "exchanges w' = exchanges w @ ys"
      and "Suc i < length ys"
      and "status (snd (ys ! Suc i)) \<noteq> 200"
  shows "r = Inr False \<and> length ys = i + 2 \<and>
         day_exchange env days (Suc (ticks w) + 2 * i) (int i) (ys ! Suc i)"
proof -
  from create_graph_messages_failed [OF assms(1)] obtain rc wc where
    c: "collect_series env days limit members w = (rc, wc)"
    and e: "exchanges w' = exchanges wc"
    and r: "rc = Inr None \<longrightarrow> r = Inr False"
    by blast
  from collect_series_log [OF c] e assms(2,3) obtain y zs where
    ys: "ys = y # zs" and ll: "loop_log rc (nat days) zs"
    by auto
  from assms(3,4) ys have i: "i < length zs" "status (snd (zs ! i)) \<noteq> 200" by simp_all
  from ll have "\<forall>z \<in> set (butlast zs). status (snd z) = 200" by (simp add: loop_log_def)
  from not_last_in_butlast [OF i(1) this i(2)] have len: "Suc i = length zs" .
  have "zs ! i \<in> set zs" using i(1) by simp
  with ll i(2) have "rc = Inr None"
    by (auto simp: loop_log_def split: sum.splits option.splits)
  moreover have "exchanges wc = exchanges w @ y # zs" using e assms(2) ys by simp
  from collect_series_requests [OF c this] i(1)
  have "day_exchange env days (Suc (ticks w) + 2 * i) (int i) (zs ! i)" by simp
  then have "day_exchange env days (Suc (ticks w) + 2 * i) (int i) (ys ! Suc i)"
    by (simp add: ys)
  moreover have "length ys = i + 2" using len ys by simp
  ultimately show ?thesis using r by simp
qed

theorem daily_failure_stops_witness:
  "create_graph_messages (test_env failing_script) 5 0 None new_world
     = (Inr False, new_world\<lparr>ticks := 5, exchanges := failing_log\<rparr>)
   \<and> Suc 1 < length failing_log
   \<and> status (snd (failing_log ! Suc 1)) = 503
   \<and> length failing_log = 1 + 2
   \<and> day_exchange (test_env failing_script) 5 (Suc (ticks new_world) + 2 * 1) (int 1)
       (failing_log ! Suc 1)"
proof -
  have run: "create_graph_messages (test_env failing_script) 5 0 None new_world
     = (Inr False, new_world\<lparr>ticks := 5, exchanges := failing_log\<rparr>)"
    by (simp add: create_graph_messages_def run_defs failing_script_def failing_log_def
          demo_rows_def)
  have log: "exchanges (new_world\<lparr>ticks := 5, exchanges := failing_log\<rparr>)
       = exchanges new_world @ failing_log"
    by (simp add: new_world_def)
  have i: "Suc 1 < length failing_log" by (simp add: failing_log_def)
  have bad: "status (snd (failing_log ! Suc 1)) \<noteq> 200" by (simp add: failing_log_def)
  from daily_failure_stops [OF run log i bad] run i show ?thesis
    by (simp add: failing_log_def)
qed

section \<open>The server graph\<close>

lemma sample_SomeD:
  assumes "sample env d k w = (Inr (Some p), w')"
  shows "\<exists>y. w' = w\<lparr>ticks := ticks w + 2, exchanges := exchanges w @ [y]\<rparr> \<and>
              window_exchange env d (ticks w) k y p"
proof -
  define y where "y = last (exchanges w')"
  from assms have "w' = w\<lparr>ticks := ticks w + 2, exchanges := exchanges w @ [y]\<rparr> \<and>
              window_exchange env d (ticks w) k y p"
    unfolding y_def
    by (auto simp: sample_def utcnow_minus_def session_get_def Let_def window_exchange_def
             split: sum.splits prod.splits if_splits)
  then show ?thesis by blast
qed

lemma sample_loop_SomeD:
  "sample_loop env d ks acc w = (Inr (Some pts), w') \<Longrightarrow>
     \<exists>ys new. pts = acc @ new \<and> length new = length ks \<and> length ys = length ks \<and>
       w' = w\<lparr>ticks := ticks w + 2 * length ks, exchanges := exchanges w @ ys\<rparr> \<and>
       (\<forall>j < length ks. window_exchange env d (ticks w + 2 * j) (ks ! j) (ys ! j) (new ! j))"
proof (induction ks arbitrary: acc w)
  case Nil
  then show ?case by simp
next
  case (Cons k rest)
  obtain r1 w1 where step: "sample env d k w = (r1, w1)"
    by (cases "sample env d k w")
  with Cons.prems obtain p where r1: "r1 = Inr (Some p)"
    and rest: "sample_loop env d rest (acc @ [p]) w1 = (Inr (Some pts), w')"
    by (auto split: sum.splits option.splits)
  from sample_SomeD [OF step [unfolded r1]] obtain y where
    w1: "w1 = w\<lparr>ticks := ticks w + 2, exchanges := exchanges w @ [y]\<rparr>"
    and y: "window_exchange env d (ticks w) k y p"
    by blast
  from Cons.IH [OF rest] obtain ys new where
    pts: "pts = (acc @ [p]) @ new" and lens: "length new = length rest" "length ys = length rest"
    and w': "w' = w1\<lparr>ticks := ticks w1 + 2 * length rest, exchanges := exchanges w1 @ ys\<rparr>"
    and all: "\<forall>j < length rest.
                window_exchange env d (ticks w1 + 2 * j) (rest ! j) (ys ! j) (new ! j)"
    by blast
  have "window_exchange env d (ticks w + 2 * j) ((k # rest) ! j) ((y # ys) ! j) ((p # new) ! j)"
    if "j < length (k # rest)" for j
  proof (cases j)
    case 0
    with y show ?thesis by simp
  next
    case (Suc j')
    with that all have "window_exchange env d (ticks w1 + 2 * j') (rest ! j') (ys ! j') (new ! j')"
      by simp
    with Suc show ?thesis by (simp add: w1)
  qed
  moreover have "pts = acc @ p # new" using pts by simp
  moreover have "w' = w\<lparr>ticks := ticks w + 2 * length (k # rest),
                        exchanges := exchanges w @ y # ys\<rparr>"
    by (simp add: w' w1)
  ultimately show ?case using lens
    by (intro exI [of _ "y # ys"] exI [of _ "p # new"]) simp
qed

lemma lines_server_figure:
  "lines (server_figure pts) = [Line (map (\<lambda>p. XStr (fst p)) (rev pts)) (map snd (rev pts)) None]"
  by (simp add: server_figure_def Let_def empty_figure_def)

text \<open>
  C6. A run of \<^verbatim>\<open>server\<close> that sends its graph has made one exchange for each of the
  \<open>num_samples\<close> windows, the most recent window first: the \<open>k\<close>-th exchange \<open>ys ! k\<close> asks
  for the window from \<open>(k + 1) * sample_distance\<close> to \<open>k * sample_distance\<close> days ago, and
  its point \<open>pts ! k\<close> is the day of the window's end with the sum of the \<^verbatim>\<open>messages\<close>
  of its response. The line of the figure that is saved and sent has the points in the
  reverse order, oldest window first. On the service that returns the sums 10, 20 and 30
  in the order of the requests, the line reads 30, 20, 10 under the labels of the oldest,
  the middle and the newest window.
\<close>

theorem server_totals_reversed:
  assumes "server env num_samples sample_distance w = (Inr None, w')"
      and "exchanges w' = exchanges w @ ys"
  shows "\<exists>pts. length pts = length ys \<and> length ys = nat num_samples \<and>
           (\<forall>k < length ys.
              window_exchange env sample_distance (ticks w + 2 * k) (int k) (ys ! k) (pts ! k)) \<and>
           png w' = Some (server_figure pts) \<and>
           outbox w' = outbox w @ [Attachment (server_figure pts)] \<and>
           lines (server_figure pts) =
             [Line (map (\<lambda>p. XStr (fst p)) (rev pts)) (map snd (rev pts)) None]"
proof -
  obtain rl w1 where loop: "sample_loop env sample_distance (py_range num_samples) [] w = (rl, w1)"
    by (cases "sample_loop env sample_distance (py_range num_samples) [] w")
  with assms(1) obtain pts where rl: "rl = Inr (Some pts)"
    and w': "w' = w1\<lparr>axes := empty_figure, png := Some (server_figure pts),
                     outbox := outbox w1 @ [Attachment (server_figure pts)]\<rparr>"
    by (auto simp: server_def Let_def split: sum.splits option.splits)
  from sample_loop_SomeD [OF loop [unfolded rl]] obtain zs new where
    new: "pts = new" "length new = nat num_samples" "length zs = nat num_samples"
    and w1: "w1 = w\<lparr>ticks := ticks w + 2 * nat num_samples, exchanges := exchanges w @ zs\<rparr>"
    and all: "\<forall>j < nat num_samples.
       window_exchange env sample_distance (ticks w + 2 * j) (py_range num_samples ! j)
         (zs ! j) (new ! j)"
    by (auto simp: length_py_range)
  from assms(2) w' w1 have ys: "ys = zs" by simp
  from all new ys have "\<forall>k < length ys.
       window_exchange env sample_distance (ticks w + 2 * k) (int k) (ys ! k) (pts ! k)"
    by (simp add: py_range_nth)
  with new ys w' w1 show ?thesis
    by (intro exI [of _ pts]) (simp add: lines_server_figure)
qed

theorem server_totals_reversed_witness:
  "server (test_env sums_script) 3 7 new_world
     = (Inr None,
        new_world\<lparr>ticks := 6, exchanges := sums_log, png := Some sums_figure,
          outbox := [Attachment sums_figure]\<rparr>)
   \<and> lines sums_figure
       = [Line [XStr (show_int 19986), XStr (show_int 19993), XStr (show_int 20000)]
            [30, 20, 10] None]"
proof -
  have run: "server (test_env sums_script) 3 7 new_world
     = (Inr None,
        new_world\<lparr>ticks := 6, exchanges := sums_log, png := Some sums_figure,
          outbox := [Attachment sums_figure]\<rparr>)"
    by (simp add: server_def sample_def server_figure_def empty_figure_def run_defs
          sums_script_def sums_log_def sums_figure_def)
  have log: "exchanges (new_world\<lparr>ticks := 6, exchanges := sums_log, png := Some sums_figure,
          outbox := [Attachment sums_figure]\<rparr>) = exchanges new_world @ sums_log"
    by (simp add: new_world_def)
  from server_totals_reversed [OF run log] run show ?thesis
    by (simp add: sums_figure_def)
qed

section \<open>The replies of the commands\<close>

lemma plot_series_outbox:
  "plot_series nm tot gd w = (r, w') \<Longrightarrow> outbox w' = outbox w"
  by (induction nm tot gd w rule: plot_series.induct) (auto split: option.splits)

lemma day_step_outbox: "day_step env days i st w = (r, w') \<Longrightarrow> outbox w' = outbox w"
  by (auto simp: day_step_def utcnow_minus_def session_get_def Let_def
           split: sum.splits prod.splits if_splits)

lemma day_loop_outbox: "day_loop env days is st w = (r, w') \<Longrightarrow> outbox w' = outbox w"
proof (induction "is" arbitrary: st w)
  case Nil
  then show ?case by simp
next
  case (Cons i rest)
  obtain r1 w1 where step: "day_step env days i st w = (r1, w1)"
    by (cases "day_step env days i st w")
  from day_step_outbox [OF step] have "outbox w1 = outbox w" .
  with Cons step show ?case
    by (auto split: sum.splits option.splits)
qed

lemma collect_series_outbox:
  assumes "collect_series env days limit members w = (r, w')"
  shows "outbox w' = outbox w"
proof -
  obtain rp w1 where wp: "window_params env days limit members w = (rp, w1)"
    by (cases "window_params env days limit members w")
  then have o1: "outbox w1 = outbox w"
    by (auto simp: window_params_def utcnow_minus_def split: sum.splits)
  show ?thesis
  proof (cases rp)
    case (Inl e)
    with assms wp o1 show ?thesis by (auto simp: collect_series_def)
  next
    case (Inr ps)
    obtain resp w2 where sg: "session_get env \<lparr>url = stats_url, params = ps\<rparr> w1 = (resp, w2)"
      by (cases "session_get env \<lparr>url = stats_url, params = ps\<rparr> w1")
    then have o2: "outbox w2 = outbox w" using o1 by (auto simp: session_get_def Let_def)
    obtain rl w3 where dl: "day_loop env days (py_range days)
        (dict_of discord_id user (json resp), seed (dict_of discord_id user (json resp))) w2
        = (rl, w3)"
      by (cases "day_loop env days (py_range days)
        (dict_of discord_id user (json resp), seed (dict_of discord_id user (json resp))) w2")
    from day_loop_outbox [OF dl] o2 have "outbox w3 = outbox w" by simp
    with assms wp Inr sg dl o2 show ?thesis
      by (auto simp: collect_series_def Let_def split: if_splits sum.splits option.splits)
  qed
qed

text \<open>\<^verbatim>\<open>create_graph_messages\<close> sends nothing, and when it returns \<^verbatim>\<open>True\<close> the file
  holds a figure.\<close>

lemma create_graph_messages_outbox:
  assumes "create_graph_messages env days limit members w = (r, w')"
  shows "outbox w' = outbox w \<and> (r = Inr True \<longrightarrow> png w' \<noteq> None)"
proof -
  obtain rc wc where c: "collect_series env days limit members w = (rc, wc)"
    by (cases "collect_series env days limit members w")
  from collect_series_outbox [OF c] have "outbox wc = outbox w" .
  with assms c show ?thesis
    by (auto simp: create_graph_messages_def Let_def utcnow_minus_def
             split: sum.splits option.splits prod.splits dest: plot_series_outbox)
qed

text \<open>\<^verbatim>\<open>top\<close> and \<^verbatim>\<open>users\<close>, when no exception is raised, send one reply: the figure
  of the file after \<^verbatim>\<open>True\<close>, the text after \<^verbatim>\<open>False\<close>.\<close>

lemma send_graph_one_reply:
  assumes "create_graph_messages env days limit members w = (Inr b, w1)"
  shows "\<exists>rep. send_graph (Inr b, w1) = (Inr (), w1\<lparr>outbox := outbox w @ [rep]\<rparr>) \<and>
           (if b then \<exists>g. png w1 = Some g \<and> rep = Attachment g
            else rep = Text ''Nothing found'')"
  using create_graph_messages_outbox [OF assms]
  by (cases b) (auto simp: send_graph_def)

lemma top_command_one_reply:
  assumes "create_graph_messages env (clamp days 1 30) (clamp n 1 10) None w = (Inr b, w1)"
  shows "\<exists>rep. top_command env n days w = (Inr (), w1\<lparr>outbox := outbox w @ [rep]\<rparr>) \<and>
           (if b then \<exists>g. png w1 = Some g \<and> rep = Attachment g
            else rep = Text ''Nothing found'')"
  using send_graph_one_reply [OF assms] assms by (simp add: top_command_def Let_def)

lemma users_one_reply:
  assumes "members \<noteq> []"
      and "create_graph_messages env (clamp days 1 30) 0 (Some (take 10 members)) w = (Inr b, w1)"
  shows "\<exists>rep. users env members days w = (Inr (), w1\<lparr>outbox := outbox w @ [rep]\<rparr>) \<and>
           (if b then \<exists>g. png w1 = Some g \<and> rep = Attachment g
            else rep = Text ''Nothing found'')"
  using send_graph_one_reply [OF assms(2)] assms by (simp add: users_def Let_def)

text \<open>\<^verbatim>\<open>server\<close> sends nothing when it returns \<^verbatim>\<open>False\<close>.\<close>

lemma sample_outbox: "sample env d k w = (r, w') \<Longrightarrow> outbox w' = outbox w"
  by (auto simp: sample_def utcnow_minus_def session_get_def Let_def
           split: sum.splits prod.splits if_splits)

lemma sample_loop_outbox:
  "sample_loop env d ks acc w = (r, w') \<Longrightarrow> outbox w' = outbox w"
proof (induction ks arbitrary: acc w)
  case Nil
  then show ?case by simp
next
  case (Cons k rest)
  obtain r1 w1 where step: "sample env d k w = (r1, w1)"
    by (cases "sample env d k w")
  from sample_outbox [OF step] have "outbox w1 = outbox w" .
  with Cons step show ?case
    by (auto split: sum.splits option.splits)
qed

lemma server_False_silent:
  assumes "server env num_samples sample_distance w = (Inr (Some False), w')"
  shows "outbox w' = outbox w"
proof -
  obtain rl w1 where loop: "sample_loop env sample_distance (py_range num_samples) [] w = (rl, w1)"
    by (cases "sample_loop env sample_distance (py_range num_samples) [] w")
  from sample_loop_outbox [OF loop] have "outbox w1 = outbox w" .
  with assms loop show ?thesis
    by (auto simp: server_def Let_def split: sum.splits option.splits)
qed

text \<open>
  C8. The replies of the commands on a service that fails. \<^verbatim>\<open>top\<close> sends the text
  \<^verbatim>\<open>Nothing found\<close> when the service answers with status 500. \<^verbatim>\<open>server\<close>, on the
  same service and on one that answers 200 with an empty array, returns \<^verbatim>\<open>False\<close> from
  inside its loop (lines 209 and 212) and sends no reply at all: its outbox stays empty.
\<close>

theorem server_failure_sends_nothing:
  "top_command (test_env [\<lparr>status = 500, json = []\<rparr>]) 1 7 new_world
     = (Inr (),
        new_world\<lparr>ticks := 1,
          exchanges := [(\<lparr>url = stats_url,
                          params = [(''start'', PStr (show_int 19993)), (''limit'', PInt 1)]\<rparr>,
                         \<lparr>status = 500, json = []\<rparr>)],
          outbox := [Text ''Nothing found'']\<rparr>)
   \<and> server (test_env [\<lparr>status = 500, json = []\<rparr>]) 1 7 new_world
     = (Inr (Some False),
        new_world\<lparr>ticks := 2,
          exchanges := [(\<lparr>url = stats_url,
                          params = [(''start'', PStr (show_int 19993)),
                                    (''end'', PStr (show_int 20000))]\<rparr>,
                         \<lparr>status = 500, json = []\<rparr>)],
          outbox := []\<rparr>)
   \<and> server (test_env [ok []]) 1 7 new_world
     = (Inr (Some False),
        new_world\<lparr>ticks := 2,
          exchanges := [(\<lparr>url = stats_url,
                          params = [(''start'', PStr (show_int 19993)),
                                    (''end'', PStr (show_int 20000))]\<rparr>,
                         ok [])],
          outbox := []\<rparr>)"
  by (simp add: top_command_def send_graph_def create_graph_messages_def clamp_def
        server_def sample_def run_defs)

section \<open>The commands' arguments\<close>

lemma clamp_max_min: "low \<le> high \<Longrightarrow> clamp v low high = max low (min high v)"
  by (simp add: clamp_def)

lemma send_graph_exchanges: "exchanges (snd (send_graph x)) = exchanges (snd x)"
  by (cases x) (auto simp: send_graph_def split: sum.splits bool.splits option.splits)

text \<open>
  C7. \<^verbatim>\<open>top\<close> clamps its arguments before it calls the aggregation, which issues all
  the requests of the command. For every \<open>n\<close> and \<open>days\<close> the command is the reply to
  \<^verbatim>\<open>create_graph_messages\<close> run with the window \<open>max 1 (min 30 days)\<close> and the limit
  \<open>max 1 (min 10 n)\<close>, and its exchanges are those of that run. These are the values of
  \<^verbatim>\<open>clamp\<close>: an argument within its bounds is passed on unchanged, one below them
  becomes the lower bound and one above them the upper bound, so the value is always
  within 1..10 for \<open>n\<close> and within 1..30 for \<open>days\<close>. \<^verbatim>\<open>top(n=15, days=0)\<close> runs the
  aggregation with limit 10 and window 1.
\<close>

theorem top_clamps_arguments:
  "top_command env n days w =
     send_graph (create_graph_messages env (max 1 (min 30 days)) (max 1 (min 10 n)) None w)
   \<and> exchanges (snd (top_command env n days w)) =
       exchanges (snd (create_graph_messages env (clamp days 1 30) (clamp n 1 10) None w))
   \<and> clamp n 1 10 = max 1 (min 10 n) \<and> clamp days 1 30 = max 1 (min 30 days)
   \<and> (1 \<le> n \<and> n \<le> 10 \<longrightarrow> clamp n 1 10 = n)
   \<and> (n < 1 \<longrightarrow> clamp n 1 10 = 1) \<and> (10 < n \<longrightarrow> clamp n 1 10 = 10)
   \<and> (1 \<le> days \<and> days \<le> 30 \<longrightarrow> clamp days 1 30 = days)
   \<and> (days < 1 \<longrightarrow> clamp days 1 30 = 1) \<and> (30 < days \<longrightarrow> clamp days 1 30 = 30)
   \<and> 1 \<le> clamp n 1 10 \<and> clamp n 1 10 \<le> 10
   \<and> 1 \<le> clamp days 1 30 \<and> clamp days 1 30 \<le> 30
   \<and> top_command env 15 0 w = send_graph (create_graph_messages env 1 10 None w)"
proof -
  have n: "clamp n 1 10 = max 1 (min 10 n)" and d: "clamp days 1 30 = max 1 (min 30 days)"
    by (simp_all add: clamp_max_min)
  have call: "top_command env n days w =
     send_graph (create_graph_messages env (clamp days 1 30) (clamp n 1 10) None w)"
    by (simp add: top_command_def Let_def)
  have inst: "top_command env 15 0 w = send_graph (create_graph_messages env 1 10 None w)"
    by (simp add: top_command_def clamp_def Let_def)
  have log: "exchanges (snd (top_command env n days w)) =
       exchanges (snd (create_graph_messages env (clamp days 1 30) (clamp n 1 10) None w))"
    by (simp add: call send_graph_exchanges)
  from call have call': "top_command env n days w =
     send_graph (create_graph_messages env (max 1 (min 30 days)) (max 1 (min 10 n)) None w)"
    by (simp only: n d)
  have cases_n: "(1 \<le> n \<and> n \<le> 10 \<longrightarrow> clamp n 1 10 = n)
     \<and> (n < 1 \<longrightarrow> clamp n 1 10 = 1) \<and> (10 < n \<longrightarrow> clamp n 1 10 = 10)
     \<and> 1 \<le> clamp n 1 10 \<and> clamp n 1 10 \<le> 10"
    by (simp add: clamp_def)
  have cases_d: "(1 \<le> days \<and> days \<le> 30 \<longrightarrow> clamp days 1 30 = days)
     \<and> (days < 1 \<longrightarrow> clamp days 1 30 = 1) \<and> (30 < days \<longrightarrow> clamp days 1 30 = 30)
     \<and> 1 \<le> clamp days 1 30 \<and> clamp days 1 30 \<le> 30"
    by (simp add: clamp_def)
  from call' log n d cases_n cases_d inst show ?thesis by blast
qed

theorem top_clamps_arguments_witness:
  "clamp 15 1 10 = 10 \<and> clamp 0 1 30 = 1
   \<and> clamp 5 1 10 = 5 \<and> clamp 7 1 30 = 7
   \<and> clamp 0 1 10 = 1 \<and> clamp 31 1 30 = 30
   \<and> top_command (test_env [\<lparr>status = 500, json = []\<rparr>]) 15 0 new_world
     = (Inr (),
        new_world\<lparr>ticks := 1,
          exchanges := [(\<lparr>url = stats_url,
                          params = [(''start'', PStr (show_int 19999)), (''limit'', PInt 10)]\<rparr>,
                         \<lparr>status = 500, json = []\<rparr>)],
          outbox := [Text ''Nothing found'']\<rparr>)"
proof -
  have run: "send_graph (create_graph_messages (test_env [\<lparr>status = 500, json = []\<rparr>])
                 1 10 None new_world)
     = (Inr (),
        new_world\<lparr>ticks := 1,
          exchanges := [(\<lparr>url = stats_url,
                          params = [(''start'', PStr (show_int 19999)), (''limit'', PInt 10)]\<rparr>,
                         \<lparr>status = 500, json = []\<rparr>)],
          outbox := [Text ''Nothing found'']\<rparr>)"
    by (simp add: send_graph_def create_graph_messages_def run_defs)
  from top_clamps_arguments [of "test_env [\<lparr>status = 500, json = []\<rparr>]" 15 0 new_world]
       top_clamps_arguments [of "test_env [\<lparr>status = 500, json = []\<rparr>]" 5 7 new_world]
       top_clamps_arguments [of "test_env [\<lparr>status = 500, json = []\<rparr>]" 0 31 new_world]
       run
  show ?thesis by simp
qed

text \<open>
  C10. For \<open>num_samples \<le> 0\<close> the loop of \<^verbatim>\<open>server\<close> has no iteration: the command
  makes no request (the log of exchanges is unchanged), returns at its end and not with
  \<^verbatim>\<open>False\<close>, and sends one attachment and no text: the figure with one line that has
  no point.
\<close>

theorem server_without_samples:
  assumes "num_samples \<le> 0"
  shows "server env num_samples sample_distance w =
           (Inr None,
            w\<lparr>axes := empty_figure, png := Some (server_figure []),
              outbox := outbox w @ [Attachment (server_figure [])]\<rparr>)
         \<and> exchanges (snd (server env num_samples sample_distance w)) = exchanges w
         \<and> lines (server_figure []) = [Line [] [] None]"
  using assms by (simp add: server_def py_range_nonpos server_figure_def Let_def empty_figure_def)

theorem server_without_samples_witness:
  "(0::int) \<le> 0
   \<and> server (test_env []) 0 7 new_world =
           (Inr None,
            new_world\<lparr>axes := empty_figure, png := Some (server_figure []),
              outbox := outbox new_world @ [Attachment (server_figure [])]\<rparr>)
   \<and> exchanges (snd (server (test_env []) 0 7 new_world)) = exchanges new_world
   \<and> lines (server_figure []) = [Line [] [] None]"
  using server_without_samples [of 0 "test_env []" 7 new_world] by simp

end
